theory Spec2Isabelle
  imports Complex_Main
begin

section \<open>Vectors and scene state\<close>

text \<open>
  The layout and selection code of \<^verbatim>\<open>src/App.tsx\<close> works on three.js \<^verbatim>\<open>Vector3\<close>
  objects.  JavaScript numbers are modelled as \<^typ>\<open>real\<close>: rounding of IEEE doubles is
  not represented, so only properties that do not depend on rounding are stated.
\<close>

datatype scene_state = CHAOS | FORMED

record vec3 =
  vx :: real
  vy :: real
  vz :: real

definition zero3 :: vec3 where
  "zero3 = \<lparr> vx = 0, vy = 0, vz = 0 \<rparr>"

text \<open>
  The entities built by \<^verbatim>\<open>PhotoOrnaments\<close>: the fields that the layout and the selection
  logic read.
\<close>

record photo_entity =
  chaosPos :: vec3
  targetPos :: vec3
  formedScale :: real
  chaosScale :: real
  weight :: real
  textureIndex :: nat
  currentPos :: vec3


section \<open>Procedural layout generator\<close>

text \<open>
  \<^verbatim>\<open>CONFIG.tree\<close> and \<^verbatim>\<open>CONFIG.counts\<close>.  Every call of \<^verbatim>\<open>Math.random()\<close> is a
  parameter of the model, a real number in \<open>[0, 1)\<close>, named after the order in which
  the source draws it.
\<close>

definition tree_height :: real where
  "tree_height = 32"

definition tree_radius :: real where
  "tree_radius = 13"

definition count_ornaments :: nat where
  "count_ornaments = 200"

definition isDraw :: "real \<Rightarrow> bool" where
  "isDraw r = (0 \<le> r \<and> r < 1)"

text \<open>\<^verbatim>\<open>getTreePosition\<close>: draws for the height, the angle and the radial distance.\<close>

definition getTreePosition :: "real \<Rightarrow> real \<Rightarrow> real \<Rightarrow> vec3" where
  "getTreePosition r1 r2 r3 =
     (let h = tree_height; rBase = tree_radius;
          y = (r1 * h) - (h / 2);
          normalizedY = (y + (h / 2)) / h;
          currentRadius = rBase * (1 - normalizedY);
          theta = r2 * pi * 2;
          r = r3 * currentRadius
      in \<lparr> vx = r * cos theta, vy = y, vz = r * sin theta \<rparr>)"

text \<open>
  The target positions computed inline by \<^verbatim>\<open>PhotoOrnaments\<close>, \<^verbatim>\<open>ChristmasElements\<close>
  and \<^verbatim>\<open>FairyLights\<close>: two draws each, for the height and the angle.
\<close>

definition photoTargetPos :: "real \<Rightarrow> real \<Rightarrow> vec3" where
  "photoTargetPos r1 r2 =
     (let h = tree_height; y = (r1 * h) - (h / 2);
          rBase = tree_radius;
          currentRadius = (rBase * (1 - (y + (h / 2)) / h)) + 0.5;
          theta = r2 * pi * 2
      in \<lparr> vx = currentRadius * cos theta, vy = y, vz = currentRadius * sin theta \<rparr>)"

definition elementTargetPos :: "real \<Rightarrow> real \<Rightarrow> vec3" where
  "elementTargetPos r1 r2 =
     (let h = tree_height; y = (r1 * h) - (h / 2);
          rBase = tree_radius;
          currentRadius = (rBase * (1 - (y + (h / 2)) / h)) * 0.95;
          theta = r2 * pi * 2
      in \<lparr> vx = currentRadius * cos theta, vy = y, vz = currentRadius * sin theta \<rparr>)"

definition lightTargetPos :: "real \<Rightarrow> real \<Rightarrow> vec3" where
  "lightTargetPos r1 r2 =
     (let h = tree_height; y = (r1 * h) - (h / 2);
          rBase = tree_radius;
          currentRadius = (rBase * (1 - (y + (h / 2)) / h)) + 0.3;
          theta = r2 * pi * 2
      in \<lparr> vx = currentRadius * cos theta, vy = y, vz = currentRadius * sin theta \<rparr>)"

text \<open>Distance of a point from the tree axis, and the cone radius at a height.\<close>

definition radial :: "vec3 \<Rightarrow> real" where
  "radial p = sqrt (vx p * vx p + vz p * vz p)"

definition coneRadius :: "real \<Rightarrow> real" where
  "coneRadius y = tree_radius * (1 - (y + tree_height / 2) / tree_height)"

text \<open>
  The conical-tree procedure in the words of the specification, with an additive
  radius offset for the population: height uniform in the tree's range, local radius
  \<open>baseRadius * (1 - normalizedHeight)\<close>, an angle and a radial distance within the
  local radius.
\<close>

definition specConicalPosition :: "real \<Rightarrow> real \<Rightarrow> real \<Rightarrow> real \<Rightarrow> vec3" where
  "specConicalPosition offset uHeight uAngle uRadial =
     (let halfHeight = tree_height / 2;
          Y = - halfHeight + uHeight * tree_height;
          normalizedHeight = (Y + halfHeight) / tree_height;
          localRadius = tree_radius * (1 - normalizedHeight);
          theta = uAngle * (2 * pi);
          r = uRadial * localRadius + offset
      in \<lparr> vx = r * cos theta, vy = Y, vz = r * sin theta \<rparr>)"

subsection \<open>The photo-ornament component\<close>

text \<open>
  One element of \<^verbatim>\<open>data\<close> in \<^verbatim>\<open>PhotoOrnaments\<close>.  \<open>rnd k\<close> is the \<open>k\<close>-th draw made
  for this entity; draws 7 to 15 feed the border colour, the rotations and the wobble,
  which the record does not keep.
\<close>

definition photoEntity :: "(nat \<Rightarrow> real) \<Rightarrow> nat \<Rightarrow> nat \<Rightarrow> photo_entity" where
  "photoEntity rnd i textureCount =
     (let yRandom = (rnd 0) ^ 2;
          yPos = - 35 + yRandom * 70;
          chaos = \<lparr> vx = (rnd 1 - 0.5) * 70, vy = yPos, vz = (rnd 2 - 0.5) * 70 \<rparr>;
          depthFactor = (vz chaos + 35) / 70
      in \<lparr> chaosPos = chaos,
           targetPos = photoTargetPos (rnd 3) (rnd 4),
           formedScale = 0.3 + rnd 5 * 0.2,
           chaosScale = 1.2 + depthFactor * 2.5,
           weight = 0.8 + rnd 6 * 1.2,
           textureIndex = i mod textureCount,
           currentPos = chaos \<rparr>)"

text \<open>
  What one render of \<^verbatim>\<open>PhotoOrnaments\<close> does: the list handed to \<^verbatim>\<open>useTexture\<close>
  (empty when the hook is not reached) and the rendered group's entities
  (\<open>None\<close> for \<^verbatim>\<open>return null\<close>).  The \<^verbatim>\<open>photos\<close> prop is \<open>None\<close> when undefined.
\<close>

record photo_render =
  texturesRequested :: "string list"
  rendered :: "photo_entity list option"

definition PhotoOrnaments :: "string list option \<Rightarrow> (nat \<Rightarrow> real) \<Rightarrow> photo_render" where
  "PhotoOrnaments photos rnd =
     (case photos of
        None \<Rightarrow> \<lparr> texturesRequested = [], rendered = None \<rparr>
      | Some ps \<Rightarrow>
          if length ps = 0 then \<lparr> texturesRequested = [], rendered = None \<rparr>
          else \<lparr> texturesRequested = ps,
                 rendered = Some (map (\<lambda>i. photoEntity (\<lambda>k. rnd (16 * i + k)) i (length ps))
                                    [0..<count_ornaments]) \<rparr>)"

section \<open>Gesture intake\<close>

text \<open>
  The per-frame callback \<^verbatim>\<open>predictWebcam\<close> of \<^verbatim>\<open>GestureController\<close>.  The classifier
  is a black box that returns ranked gesture categories and hand landmarks; a landmark's
  \<^verbatim>\<open>z\<close> may be missing, which the source reads as \<^verbatim>\<open>(p.z || 0)\<close>.  Status strings
  and the debug overlay are not modelled.
\<close>

record landmark =
  lm_x :: real
  lm_y :: real
  lm_z :: "real option"

record category =
  categoryName :: string
  score :: real

record recognizer_result =
  gestures :: "category list list"
  landmarks :: "landmark list list"

text \<open>
  What one animation frame sees: the video has no size yet (the body is skipped),
  \<^verbatim>\<open>recognizeForVideo\<close> throws, or it returns a result.
\<close>

datatype frame = VideoNotReady | ClassifierThrows | Recognized recognizer_result

datatype js_error = TypeError

record gesture_refs =
  lastGesture :: string
  gestureStableCount :: nat
  pinchState :: bool
  pinchChangeStableCount :: nat

record hand_position =
  hp_x :: real
  hp_y :: real
  hp_z :: real
  visible :: bool
  gesture :: string
  isPinching :: bool

text \<open>
  The callbacks invoked during one frame: the \<^verbatim>\<open>onGesture\<close> calls in order, and the
  last argument given to \<^verbatim>\<open>onMove\<close> and to \<^verbatim>\<open>onHandPosition\<close>, if any.
\<close>

record frame_output =
  out_intents :: "scene_state list"
  out_move :: "real option"
  out_hand :: "hand_position option"

text \<open>JavaScript array indexing: \<^verbatim>\<open>undefined\<close> outside the array.\<close>

definition elemAt :: "'a list \<Rightarrow> nat \<Rightarrow> 'a option" where
  "elemAt xs i = (if i < length xs then Some (xs ! i) else None)"

definition zOr0 :: "landmark \<Rightarrow> real" where
  "zOr0 p = (case lm_z p of None \<Rightarrow> 0 | Some z \<Rightarrow> z)"

definition hypot :: "real \<Rightarrow> real \<Rightarrow> real \<Rightarrow> real" where
  "hypot a b c = sqrt (a * a + b * b + c * c)"

subsection \<open>Label stability and discrete intents\<close>

text \<open>
  Lines 939 to 957.  Reading \<^verbatim>\<open>results.gestures[0][0].categoryName\<close> throws when the
  first ranking is empty, before any ref is changed.  The result carries the updated
  refs, \<^verbatim>\<open>name\<close>, \<^verbatim>\<open>score\<close> and the \<^verbatim>\<open>onGesture\<close> calls.
\<close>

definition gestureStage ::
  "gesture_refs \<Rightarrow> category list list \<Rightarrow> js_error + (gesture_refs \<times> string \<times> real \<times> scene_state list)" where
  "gestureStage refs gs =
     (case gs of
        [] \<Rightarrow> Inr (refs, '''', 0, [])
      | [] # _ \<Rightarrow> Inl TypeError
      | (c # _) # _ \<Rightarrow>
          (let name = categoryName c;
               sc = score c;
               refs1 = (if name = lastGesture refs
                        then refs \<lparr> gestureStableCount := gestureStableCount refs + 1 \<rparr>
                        else refs \<lparr> lastGesture := name, gestureStableCount := 0 \<rparr>);
               intents = (if sc > 0.35 \<and> gestureStableCount refs1 \<ge> 2
                          then (if name = ''Open_Palm'' then [CHAOS] else []) @
                               (if name = ''Closed_Fist'' then [FORMED] else [])
                          else [])
           in Inr (refs1, name, sc, intents)))"

subsection \<open>Hand measurements\<close>

definition rotationOf :: "landmark \<Rightarrow> real" where
  "rotationOf wrist =
     (let speed = (0.5 - lm_x wrist) * 0.15 in if \<bar>speed\<bar> > 0.01 then speed else 0)"

definition pinchDistance :: "landmark \<Rightarrow> landmark \<Rightarrow> real" where
  "pinchDistance indexFingerTip thumbTip =
     (let dx = lm_x indexFingerTip - lm_x thumbTip;
          dy = lm_y indexFingerTip - lm_y thumbTip;
          dz = zOr0 indexFingerTip - zOr0 thumbTip
      in sqrt (dx * dx + dy * dy + dz * dz))"

text \<open>\<^verbatim>\<open>l[9] || l[5] || l[0]\<close>: a landmark object is always truthy.\<close>

definition palmBaseOf :: "landmark list \<Rightarrow> landmark option" where
  "palmBaseOf l =
     (case elemAt l 9 of
        Some p \<Rightarrow> Some p
      | None \<Rightarrow> (case elemAt l 5 of Some p \<Rightarrow> Some p | None \<Rightarrow> elemAt l 0))"

text \<open>\<^verbatim>\<open>Math.hypot(...) || 1e-6\<close>: the constant replaces a distance of exactly zero.\<close>

definition palmSizeOf :: "landmark \<Rightarrow> landmark \<Rightarrow> real" where
  "palmSizeOf wrist palmBase =
     (let d = hypot (lm_x wrist - lm_x palmBase) (lm_y wrist - lm_y palmBase)
                (zOr0 wrist - zOr0 palmBase)
      in if d = 0 then 1 / 1000000 else d)"

definition opennessTipIds :: "nat list" where
  "opennessTipIds = [8, 12, 16, 20]"

text \<open>The \<^verbatim>\<open>for (const id of opennessTipIds)\<close> loop; \<open>None\<close> when a tip is missing.\<close>

fun tipSumLoop :: "landmark \<Rightarrow> landmark list \<Rightarrow> nat list \<Rightarrow> real \<Rightarrow> real option" where
  "tipSumLoop wrist l [] tipSum = Some tipSum"
| "tipSumLoop wrist l (tipId # ids) tipSum =
     (case elemAt l tipId of
        None \<Rightarrow> None
      | Some tip \<Rightarrow>
          tipSumLoop wrist l ids
            (tipSum + hypot (lm_x wrist - lm_x tip) (lm_y wrist - lm_y tip)
                        (zOr0 wrist - zOr0 tip)))"

definition opennessOf :: "real \<Rightarrow> real \<Rightarrow> real" where
  "opennessOf tipSum palmSize = (tipSum / real (length opennessTipIds)) / palmSize"

text \<open>
  Lines 964 to 989: the index fingertip, the thumb-to-index distance and the openness
  score, or the \<^verbatim>\<open>TypeError\<close> raised by reading a field of a missing landmark.
\<close>

definition handMetrics :: "landmark list \<Rightarrow> js_error + (landmark \<times> real \<times> real)" where
  "handMetrics l =
     (case elemAt l 8 of
        None \<Rightarrow> Inl TypeError
      | Some indexFingerTip \<Rightarrow>
     (case elemAt l 4 of
        None \<Rightarrow> Inl TypeError
      | Some thumbTip \<Rightarrow>
     (case elemAt l 0 of
        None \<Rightarrow> Inl TypeError
      | Some wrist \<Rightarrow>
     (case palmBaseOf l of
        None \<Rightarrow> Inl TypeError
      | Some palmBase \<Rightarrow>
     (case tipSumLoop wrist l opennessTipIds 0 of
        None \<Rightarrow> Inl TypeError
      | Some tipSum \<Rightarrow>
          Inr (indexFingerTip, pinchDistance indexFingerTip thumbTip,
               opennessOf tipSum (palmSizeOf wrist palmBase)))))))"

subsection \<open>Pinch detection\<close>

definition gestureBlocksPinch :: "string \<Rightarrow> bool" where
  "gestureBlocksPinch name = (name = ''Closed_Fist'' \<or> name = ''Open_Palm'')"

definition pinchDownThreshold :: real where
  "pinchDownThreshold = 0.072"

definition pinchUpThreshold :: real where
  "pinchUpThreshold = 0.098"

definition opennessOk :: "real \<Rightarrow> bool" where
  "opennessOk openness = (openness > 1.35 \<and> openness < 2.25)"

definition scoreOk :: "string \<Rightarrow> real \<Rightarrow> bool" where
  "scoreOk name sc = (if name \<noteq> '''' then sc > 0.5 else True)"

definition rawPinch :: "bool \<Rightarrow> string \<Rightarrow> real \<Rightarrow> real \<Rightarrow> real \<Rightarrow> bool" where
  "rawPinch pinching name sc distance openness =
     (let pinchingByDistance =
            (if pinching then distance < pinchUpThreshold else distance < pinchDownThreshold)
      in \<not> gestureBlocksPinch name \<and> scoreOk name sc \<and> opennessOk openness \<and> pinchingByDistance)"

text \<open>Lines 992 to 1010.\<close>

definition pinchStage :: "gesture_refs \<Rightarrow> string \<Rightarrow> real \<Rightarrow> real \<Rightarrow> real \<Rightarrow> gesture_refs" where
  "pinchStage refs name sc distance openness =
     (let raw = rawPinch (pinchState refs) name sc distance openness in
      if gestureBlocksPinch name
      then refs \<lparr> pinchState := False, pinchChangeStableCount := 0 \<rparr>
      else if raw = pinchState refs
      then refs \<lparr> pinchChangeStableCount := 0 \<rparr>
      else if pinchChangeStableCount refs + 1 \<ge> 2
      then refs \<lparr> pinchState := raw, pinchChangeStableCount := 0 \<rparr>
      else refs \<lparr> pinchChangeStableCount := pinchChangeStableCount refs + 1 \<rparr>)"

subsection \<open>The frame callback\<close>

text \<open>\<^verbatim>\<open>results.landmarks?.[0]\<close>, kept only when it is a non-empty array.\<close>

definition handOf :: "recognizer_result \<Rightarrow> landmark list option" where
  "handOf results =
     (case landmarks results of
        [] \<Rightarrow> None
      | l # _ \<Rightarrow> if length l > 0 then Some l else None)"

definition hiddenHand :: "string \<Rightarrow> hand_position" where
  "hiddenHand name =
     \<lparr> hp_x = 0, hp_y = 0, hp_z = 0, visible = False, gesture = name, isPinching = False \<rparr>"

text \<open>
  The \<^verbatim>\<open>catch\<close> block: every ref is reset; the \<^verbatim>\<open>onGesture\<close> calls made before the
  exception stay made.
\<close>

definition catchBlock :: "scene_state list \<Rightarrow> gesture_refs \<times> frame_output" where
  "catchBlock intents =
     (\<lparr> lastGesture = '''', gestureStableCount = 0, pinchState = False,
         pinchChangeStableCount = 0 \<rparr>,
      \<lparr> out_intents = intents, out_move = Some 0, out_hand = Some (hiddenHand '''') \<rparr>)"

definition predictWebcam :: "gesture_refs \<Rightarrow> frame \<Rightarrow> gesture_refs \<times> frame_output" where
  "predictWebcam refs f =
     (case f of
        VideoNotReady \<Rightarrow> (refs, \<lparr> out_intents = [], out_move = None, out_hand = None \<rparr>)
      | ClassifierThrows \<Rightarrow> catchBlock []
      | Recognized results \<Rightarrow>
          (case gestureStage refs (gestures results) of
             Inl e \<Rightarrow> catchBlock []
           | Inr (refs1, name, sc, intents) \<Rightarrow>
               (case handOf results of
                  Some l \<Rightarrow>
                    (case handMetrics l of
                       Inl e \<Rightarrow> catchBlock intents
                     | Inr (indexFingerTip, distance, openness) \<Rightarrow>
                         (let refs2 = pinchStage refs1 name sc distance openness
                          in (refs2,
                              \<lparr> out_intents = intents,
                                out_move = Some (rotationOf (l ! 0)),
                                out_hand = Some
                                  \<lparr> hp_x = lm_x indexFingerTip, hp_y = lm_y indexFingerTip,
                                    hp_z = zOr0 indexFingerTip, visible = True,
                                    gesture = name, isPinching = pinchState refs2 \<rparr> \<rparr>)))
                | None \<Rightarrow>
                    (let refs2 = refs1 \<lparr> pinchState := False, pinchChangeStableCount := 0 \<rparr>;
                         refs3 = (if length (gestures results) = 0
                                  then refs2 \<lparr> lastGesture := '''', gestureStableCount := 0 \<rparr>
                                  else refs2)
                     in (refs3,
                         \<lparr> out_intents = intents, out_move = Some 0,
                           out_hand = Some (hiddenHand name) \<rparr>)))))"

subsection \<open>The scene state driven by the intents\<close>

text \<open>
  \<^verbatim>\<open>onGesture\<close> is \<^verbatim>\<open>setSceneState\<close> of the \<^verbatim>\<open>App\<close> component: the last call of a
  frame decides the scene state.
\<close>

definition applyIntents :: "scene_state \<Rightarrow> scene_state list \<Rightarrow> scene_state" where
  "applyIntents sceneState intents = foldl (\<lambda>_ g. g) sceneState intents"

definition appFrame :: "scene_state \<times> gesture_refs \<Rightarrow> frame \<Rightarrow> scene_state \<times> gesture_refs" where
  "appFrame st f =
     (let (refs', out) = predictWebcam (snd st) f
      in (applyIntents (fst st) (out_intents out), refs'))"

fun sceneTrace :: "scene_state \<times> gesture_refs \<Rightarrow> frame list \<Rightarrow> scene_state list" where
  "sceneTrace st [] = []"
| "sceneTrace st (f # fs) = fst (appFrame st f) # sceneTrace (appFrame st f) fs"

fun refsAfter :: "gesture_refs \<Rightarrow> frame list \<Rightarrow> gesture_refs" where
  "refsAfter refs [] = refs"
| "refsAfter refs (f # fs) = refsAfter (fst (predictWebcam refs f)) fs"

text \<open>Number of changes of value along a trace.\<close>

fun toggles :: "scene_state list \<Rightarrow> nat" where
  "toggles (a # b # xs) = (if a \<noteq> b then 1 else 0) + toggles (b # xs)"
| "toggles _ = 0"

definition initialRefs :: gesture_refs where
  "initialRefs =
     \<lparr> lastGesture = '''', gestureStableCount = 0, pinchState = False,
       pinchChangeStableCount = 0 \<rparr>"

subsection \<open>Describing frames\<close>

text \<open>
  Vocabulary for statements about frame streams: the top-ranked category of a frame,
  the hand it carries, and whether the callback runs through without an exception.
\<close>

definition frameTop :: "frame \<Rightarrow> category option" where
  "frameTop f =
     (case f of
        Recognized results \<Rightarrow> (case gestures results of (c # _) # _ \<Rightarrow> Some c | _ \<Rightarrow> None)
      | _ \<Rightarrow> None)"

definition frameHand :: "frame \<Rightarrow> landmark list option" where
  "frameHand f = (case f of Recognized results \<Rightarrow> handOf results | _ \<Rightarrow> None)"

definition noThrow :: "frame \<Rightarrow> bool" where
  "noThrow f =
     (case f of
        VideoNotReady \<Rightarrow> True
      | ClassifierThrows \<Rightarrow> False
      | Recognized results \<Rightarrow>
          (case gestures results of [] \<Rightarrow> True | g # _ \<Rightarrow> g \<noteq> []) \<and>
          (case handOf results of None \<Rightarrow> True | Some l \<Rightarrow> 21 \<le> length l))"

definition hasLabel :: "string \<Rightarrow> frame \<Rightarrow> bool" where
  "hasLabel name f = (case frameTop f of Some c \<Rightarrow> categoryName c = name | None \<Rightarrow> False)"

definition confidentLabel :: "string \<Rightarrow> frame \<Rightarrow> bool" where
  "confidentLabel name f =
     (noThrow f \<and>
      (case frameTop f of Some c \<Rightarrow> categoryName c = name \<and> 0.35 < score c | None \<Rightarrow> False))"

text \<open>The thumb-to-index distance measured in a frame, when it carries both tips.\<close>

definition frameDistance :: "frame \<Rightarrow> real option" where
  "frameDistance f =
     (case frameHand f of
        None \<Rightarrow> None
      | Some l \<Rightarrow>
          (case elemAt l 8 of
             None \<Rightarrow> None
           | Some indexFingerTip \<Rightarrow>
               (case elemAt l 4 of
                  None \<Rightarrow> None
                | Some thumbTip \<Rightarrow> Some (pinchDistance indexFingerTip thumbTip))))"

text \<open>
  A frame that offers the pinch detector nothing but the distance to decide on: a full
  hand, no blocking label, a sufficient score and an openness inside the band.
\<close>

definition steadyHand :: "frame \<Rightarrow> bool" where
  "steadyHand f =
     (noThrow f \<and>
      (case frameHand f of
         None \<Rightarrow> False
       | Some l \<Rightarrow>
           (case handMetrics l of
              Inl e \<Rightarrow> False
            | Inr (indexFingerTip, distance, openness) \<Rightarrow>
                opennessOk openness \<and>
                (case frameTop f of
                   None \<Rightarrow> True
                 | Some c \<Rightarrow> \<not> gestureBlocksPinch (categoryName c) \<and>
                             scoreOk (categoryName c) (score c)))))"

text \<open>
  Sample inputs.  \<open>sampleHand d\<close> has the wrist at the origin, the palm base at distance
  \<open>0.1\<close>, the four fingertips at distance \<open>0.18\<close> (openness \<open>1.8\<close>) and the thumb tip at
  distance \<open>d\<close> from the index tip.
\<close>

definition point :: "real \<Rightarrow> landmark" where
  "point x = \<lparr> lm_x = x, lm_y = 0, lm_z = Some 0 \<rparr>"

definition sampleHand :: "real \<Rightarrow> landmark list" where
  "sampleHand d =
     map (\<lambda>i. if i = 4 then point (0.18 - d)
              else if i = 9 then point 0.1
              else if i \<in> set opennessTipIds then point 0.18
              else point 0)
       [0..<21]"

definition labelledFrame :: "string \<Rightarrow> real \<Rightarrow> landmark list \<Rightarrow> frame" where
  "labelledFrame name sc l =
     Recognized \<lparr> gestures = [[\<lparr> categoryName = name, score = sc \<rparr>]], landmarks = [l] \<rparr>"

definition unlabelledFrame :: "landmark list \<Rightarrow> frame" where
  "unlabelledFrame l = Recognized \<lparr> gestures = [], landmarks = [l] \<rparr>"

definition distanceBelow :: "real \<Rightarrow> frame \<Rightarrow> bool" where
  "distanceBelow t f = (case frameDistance f of None \<Rightarrow> False | Some d \<Rightarrow> d < t)"

definition distanceAtLeast :: "real \<Rightarrow> frame \<Rightarrow> bool" where
  "distanceAtLeast t f = (case frameDistance f of None \<Rightarrow> False | Some d \<Rightarrow> t \<le> d)"

text \<open>
  What a frame hands to the pinch detector (\<^verbatim>\<open>name\<close>, \<^verbatim>\<open>score\<close>, distance, openness),
  or \<open>None\<close> when the callback does not get that far.
\<close>

definition pinchInput :: "frame \<Rightarrow> (string \<times> real \<times> real \<times> real) option" where
  "pinchInput f =
     (case f of
        Recognized results \<Rightarrow>
          (case gestureStage initialRefs (gestures results) of
             Inl e \<Rightarrow> None
           | Inr (refs1, name, sc, intents) \<Rightarrow>
               (case handOf results of
                  None \<Rightarrow> None
                | Some l \<Rightarrow>
                    (case handMetrics l of
                       Inl e \<Rightarrow> None
                     | Inr (indexFingerTip, distance, openness) \<Rightarrow>
                         Some (name, sc, distance, openness))))
      | _ \<Rightarrow> None)"

text \<open>Distance from the wrist to landmark \<open>i\<close>, as summed by the openness loop.\<close>

definition tipDistance :: "landmark list \<Rightarrow> nat \<Rightarrow> real" where
  "tipDistance l i =
     hypot (lm_x (l ! 0) - lm_x (l ! i)) (lm_y (l ! 0) - lm_y (l ! i)) (zOr0 (l ! 0) - zOr0 (l ! i))"

definition pinchedRefs :: gesture_refs where
  "pinchedRefs = initialRefs \<lparr> pinchState := True \<rparr>"

definition fistFrame :: frame where
  "fistFrame = labelledFrame ''Closed_Fist'' 0.9 (sampleHand 0.12)"

definition palmFrame :: frame where
  "palmFrame = labelledFrame ''Open_Palm'' 0.9 (sampleHand 0.12)"

definition palmRefs :: gesture_refs where
  "palmRefs = initialRefs \<lparr> lastGesture := ''Open_Palm'', gestureStableCount := 7 \<rparr>"

section \<open>Photo selection and lightbox\<close>

text \<open>
  The \<^verbatim>\<open>Experience\<close> component.  Times are \<^verbatim>\<open>Date.now()\<close> values in milliseconds.
  React state set during a frame (\<^verbatim>\<open>setIsLightboxOpen\<close> and the like) is taken to be
  committed before the next frame runs.  The camera rotation applied at the start of
  the frame callback is not modelled.
\<close>

record photo_distance =
  pd_index :: nat
  pd_distance :: real
  pd_textureIndex :: nat

text \<open>\<^verbatim>\<open>Vector3.distanceTo\<close> of three.js.\<close>

definition distanceTo :: "vec3 \<Rightarrow> vec3 \<Rightarrow> real" where
  "distanceTo a b =
     sqrt ((vx a - vx b) * (vx a - vx b) + (vy a - vy b) * (vy a - vy b) +
           (vz a - vz b) * (vz a - vz b))"

text \<open>
  The \<^verbatim>\<open>forEach\<close> over the children of the photo group.  The texture index is
  \<^verbatim>\<open>i % photos.length\<close>; the group is only mounted while \<^verbatim>\<open>photos\<close> is non-empty
  (for an empty list JavaScript would yield \<^verbatim>\<open>NaN\<close>, which the model does not
  represent).
\<close>

definition photoDistances :: "vec3 \<Rightarrow> vec3 list \<Rightarrow> nat \<Rightarrow> photo_distance list" where
  "photoDistances cameraPosition children photosLength =
     map (\<lambda>(i, position).
            \<lparr> pd_index = i, pd_distance = distanceTo cameraPosition position,
              pd_textureIndex = i mod photosLength \<rparr>)
       (enumerate 0 children)"

text \<open>
  \<^verbatim>\<open>sort((a, b) => a.distance - b.distance)\<close> is a stable sort, as \<^const>\<open>sort_key\<close> is;
  then \<^verbatim>\<open>slice(0, Math.min(5, length))\<close>.
\<close>

definition nearestPhotos :: "photo_distance list \<Rightarrow> photo_distance list" where
  "nearestPhotos photoDists =
     (let sorted = sort_key pd_distance photoDists
      in take (min 5 (length sorted)) sorted)"

definition candidatePhotos :: "nat list \<Rightarrow> photo_distance list \<Rightarrow> photo_distance list" where
  "candidatePhotos recentlyViewed nearest =
     (let candidates = filter (\<lambda>photo. pd_textureIndex photo \<notin> set recentlyViewed) nearest
      in if length candidates = 0 then nearest else candidates)"

text \<open>The \<^verbatim>\<open>reduce\<close> that sums the weights \<^verbatim>\<open>length - i\<close>.\<close>

definition totalWeight :: "'a list \<Rightarrow> nat" where
  "totalWeight candidates =
     foldl (\<lambda>sum i. sum + (length candidates - i)) 0 [0..<length candidates]"

text \<open>
  The selection loop, from index \<open>i\<close> with the running \<^verbatim>\<open>randomValue\<close>; \<open>selected\<close> is
  the value \<^verbatim>\<open>selectedPhoto\<close> keeps when the loop ends without a \<^verbatim>\<open>break\<close>.
\<close>

function pickLoop :: "'a list \<Rightarrow> nat \<Rightarrow> real \<Rightarrow> 'a option \<Rightarrow> 'a option" where
  "pickLoop candidates i randomValue selected =
     (if i < length candidates
      then (let weight = length candidates - i;
                randomValue' = randomValue - real weight
            in if randomValue' \<le> 0 then Some (candidates ! i)
               else pickLoop candidates (i + 1) randomValue' selected)
      else selected)"
  by pat_completeness auto
termination
  by (relation "measure (\<lambda>(candidates, i, randomValue, selected). length candidates - i)") auto

declare pickLoop.simps [simp del]

text \<open>
  \<^verbatim>\<open>selectedPhoto\<close> after the loop, for the draw \<open>r\<close> of \<^verbatim>\<open>Math.random()\<close>:
  \<^verbatim>\<open>candidatePhotos[0]\<close> is \<^verbatim>\<open>undefined\<close> for an empty list.
\<close>

definition weightedPick :: "'a list \<Rightarrow> real \<Rightarrow> 'a option" where
  "weightedPick candidates r =
     pickLoop candidates 0 (r * real (totalWeight candidates)) (elemAt candidates 0)"

definition MAX_RECENT_HISTORY :: nat where
  "MAX_RECENT_HISTORY = 10"

text \<open>\<^verbatim>\<open>push\<close>, then \<^verbatim>\<open>shift\<close> when the history has grown past its capacity.\<close>

definition pushRecent :: "nat list \<Rightarrow> nat \<Rightarrow> nat list" where
  "pushRecent recentlyViewed texIndex =
     (let pushed = recentlyViewed @ [texIndex]
      in if length pushed > MAX_RECENT_HISTORY then tl pushed else pushed)"

text \<open>
  Steps one to four of the open branch: the selected texture index and the new history,
  or the \<^verbatim>\<open>TypeError\<close> of reading \<^verbatim>\<open>selectedPhoto.textureIndex\<close> when no photo was
  selected.
\<close>

definition selectPhoto ::
  "vec3 \<Rightarrow> vec3 list \<Rightarrow> nat \<Rightarrow> nat list \<Rightarrow> real \<Rightarrow> js_error + (nat \<times> nat list)" where
  "selectPhoto cameraPosition children photosLength recentlyViewed r =
     (let nearest = nearestPhotos (photoDistances cameraPosition children photosLength);
          candidates = candidatePhotos recentlyViewed nearest
      in case weightedPick candidates r of
           None \<Rightarrow> Inl TypeError
         | Some selectedPhoto \<Rightarrow>
             Inr (pd_textureIndex selectedPhoto,
                  pushRecent recentlyViewed (pd_textureIndex selectedPhoto)))"

record experience =
  isLightboxOpen :: bool
  lightboxPhotoIndex :: "nat option"
  lightboxOpacity :: real
  hasPinched :: bool
  pinchCooldownUntil :: int
  fireworkTrigger :: bool
  prevSceneState :: scene_state
  fadeOutTimer :: "int option"
  recentlyViewedPhotos :: "nat list"

text \<open>
  What a frame reads from outside the component: the clock, the \<^verbatim>\<open>handPosition\<close>
  prop, the camera position, the positions of the children of the photo group (\<open>None\<close>
  while \<^verbatim>\<open>photoGroupRef.current\<close> is null), the number of photos and the draw of
  \<^verbatim>\<open>Math.random()\<close>.
\<close>

record frame_env =
  env_now :: int
  env_handPosition :: "hand_position option"
  env_camera :: vec3
  env_photoGroup :: "vec3 list option"
  env_photosLength :: nat
  env_random :: real

text \<open>\<^verbatim>\<open>handPosition && handPosition.isPinching === true\<close>.\<close>

definition pinchIntent :: "frame_env \<Rightarrow> bool" where
  "pinchIntent env = (case env_handPosition env of None \<Rightarrow> False | Some hp \<Rightarrow> isPinching hp)"

text \<open>
  The effect on \<^verbatim>\<open>sceneState\<close>, which React runs after the first render and after
  every change of the prop.  The timer that resets the firework trigger is not modelled.
\<close>

definition sceneStateEffect :: "int \<Rightarrow> scene_state \<Rightarrow> experience \<Rightarrow> experience" where
  "sceneStateEffect now sceneState st =
     (let st1 = (if prevSceneState st = CHAOS \<and> sceneState = FORMED
                 then st \<lparr> fireworkTrigger := True \<rparr> else st)
      in st1 \<lparr> prevSceneState := sceneState, pinchCooldownUntil := now + 650 \<rparr>)"

definition initialExperience :: "scene_state \<Rightarrow> experience" where
  "initialExperience sceneState =
     \<lparr> isLightboxOpen = False, lightboxPhotoIndex = None, lightboxOpacity = 1,
       hasPinched = False, pinchCooldownUntil = 0, fireworkTrigger = False,
       prevSceneState = sceneState, fadeOutTimer = None, recentlyViewedPhotos = [] \<rparr>"

definition Experience_mount :: "int \<Rightarrow> scene_state \<Rightarrow> experience" where
  "Experience_mount now sceneState = sceneStateEffect now sceneState (initialExperience sceneState)"

text \<open>
  The frame callback, lines 740 to 826.  The fade-in timer that raises the opacity to 1
  ten milliseconds after an open is not modelled; the close timer is recorded by its due
  time.
\<close>

definition Experience_useFrame :: "experience \<Rightarrow> frame_env \<Rightarrow> js_error + experience" where
  "Experience_useFrame st env =
     (let opened =
            (if env_now env \<ge> pinchCooldownUntil st \<and> pinchIntent env \<and>
                \<not> isLightboxOpen st \<and> \<not> hasPinched st
             then (case env_photoGroup env of
                     None \<Rightarrow> Inr st
                   | Some children \<Rightarrow>
                       (case selectPhoto (env_camera env) children (env_photosLength env)
                               (recentlyViewedPhotos st) (env_random env) of
                          Inl e \<Rightarrow> Inl e
                        | Inr (texIndex, recent) \<Rightarrow>
                            Inr (st \<lparr> recentlyViewedPhotos := recent,
                                      isLightboxOpen := True,
                                      lightboxPhotoIndex := Some texIndex,
                                      lightboxOpacity := 0,
                                      hasPinched := True,
                                      fadeOutTimer := None \<rparr>)))
             else Inr st)
      in case opened of
           Inl e \<Rightarrow> Inl e
         | Inr st1 \<Rightarrow>
             if \<not> pinchIntent env
             then (let st2 = (if isLightboxOpen st \<and> fadeOutTimer st1 = None
                              then st1 \<lparr> lightboxOpacity := 0,
                                         fadeOutTimer := Some (env_now env + 400) \<rparr>
                              else st1)
                   in Inr (st2 \<lparr> hasPinched := False \<rparr>))
             else Inr st1)"

text \<open>The callback of the close timer.\<close>

definition closeTimerFires :: "experience \<Rightarrow> experience" where
  "closeTimerFires st =
     st \<lparr> isLightboxOpen := False, lightboxPhotoIndex := None, fadeOutTimer := None \<rparr>"

text \<open>A frame takes the lightbox from closed to opening.\<close>

definition opensLightbox :: "experience \<Rightarrow> frame_env \<Rightarrow> bool" where
  "opensLightbox st env =
     (case Experience_useFrame st env of
        Inl e \<Rightarrow> False
      | Inr st' \<Rightarrow> \<not> isLightboxOpen st \<and> isLightboxOpen st')"

definition groupMounted :: "frame_env \<Rightarrow> bool" where
  "groupMounted env = (case env_photoGroup env of None \<Rightarrow> False | Some children \<Rightarrow> children \<noteq> [])"

text \<open>A run of frames, stopped by the first exception.\<close>

fun Experience_frames :: "experience \<Rightarrow> frame_env list \<Rightarrow> js_error + experience" where
  "Experience_frames st [] = Inr st"
| "Experience_frames st (env # envs) =
     (case Experience_useFrame st env of
        Inl e \<Rightarrow> Inl e
      | Inr st' \<Rightarrow> Experience_frames st' envs)"

text \<open>Cumulative weight of the ranks before \<open>k\<close> among \<open>n\<close> candidates.\<close>

definition cumWeight :: "nat \<Rightarrow> nat \<Rightarrow> nat" where
  "cumWeight n k = (\<Sum>j<k. n - j)"

text \<open>Sample inputs: a pinching hand, a photo group of seven ornaments on a line.\<close>

definition pinchingHand :: hand_position where
  "pinchingHand =
     \<lparr> hp_x = 0.5, hp_y = 0.5, hp_z = 0, visible = True, gesture = '''', isPinching = True \<rparr>"

definition onAxis :: "real \<Rightarrow> vec3" where
  "onAxis a = \<lparr> vx = a, vy = 0, vz = 0 \<rparr>"

definition sampleGroup :: "vec3 list" where
  "sampleGroup = [onAxis 7, onAxis 3, onAxis 5, onAxis 1, onAxis 6, onAxis 2, onAxis 4]"

definition pinchEnv :: "int \<Rightarrow> vec3 list option \<Rightarrow> real \<Rightarrow> frame_env" where
  "pinchEnv t grp r =
     \<lparr> env_now = t, env_handPosition = Some pinchingHand, env_camera = zero3,
       env_photoGroup = grp, env_photosLength = 35, env_random = r \<rparr>"

text \<open>The nearest photos and the candidates of one frame, as \<^const>\<open>selectPhoto\<close> computes them.\<close>

definition nearestOf :: "vec3 \<Rightarrow> vec3 list \<Rightarrow> nat \<Rightarrow> photo_distance list" where
  "nearestOf cameraPosition children photosLength =
     nearestPhotos (photoDistances cameraPosition children photosLength)"

definition candidatesOf :: "vec3 \<Rightarrow> vec3 list \<Rightarrow> nat \<Rightarrow> nat list \<Rightarrow> photo_distance list" where
  "candidatesOf cameraPosition children photosLength recentlyViewed =
     candidatePhotos recentlyViewed (nearestOf cameraPosition children photosLength)"

section \<open>Particle burst simulator\<close>

text \<open>
  \<^verbatim>\<open>ParticleEffect\<close>.  A batch keeps its launch and explosion points, its lifetime in
  seconds and its creation time in milliseconds; the per-particle velocity, colour and
  delay arrays do not take part in the batch life cycle and are left out.
\<close>

record batch =
  launchPos :: vec3
  explosionPos :: vec3
  lifetime :: real
  startTime :: int

text \<open>The draws of \<^verbatim>\<open>createFirework\<close> before its particle loop, in source order.\<close>

record firework_draws =
  drawX :: real
  drawY :: real
  drawZ :: real
  drawHeight :: real
  drawSpeed :: real

text \<open>
  \<^verbatim>\<open>createFirework(isPhotoMode)\<close>, called at time \<open>created\<close>.  The launch height is
  drawn only in photo mode.
\<close>

definition createFirework :: "bool \<Rightarrow> int \<Rightarrow> firework_draws \<Rightarrow> batch" where
  "createFirework isPhotoMode created d =
     (let launchX = (if isPhotoMode then (drawX d - 0.5) * 20 else (drawX d - 0.5) * 30);
          launchY = (if isPhotoMode then 5 + (drawY d - 0.5) * 10 else - 15);
          launchZ = (if isPhotoMode then 45 + drawZ d * 15 else 40 + drawZ d * 20);
          explosionHeight = (if isPhotoMode then launchY + 3 + drawHeight d * 8
                             else 15 + drawHeight d * 15);
          launchSpeed = (if isPhotoMode then 15 + drawSpeed d * 10 else 20 + drawSpeed d * 15);
          timeToExplode = \<bar>explosionHeight - launchY\<bar> / launchSpeed
      in \<lparr> launchPos = \<lparr> vx = launchX, vy = launchY, vz = launchZ \<rparr>,
           explosionPos = \<lparr> vx = launchX, vy = explosionHeight, vz = launchZ \<rparr>,
           lifetime = timeToExplode + (if isPhotoMode then 2.5 else 3.0),
           startTime = created \<rparr>)"

record particle_state =
  particleBatches :: "batch list"
  nextSpawnTime :: int
  isActive :: bool

text \<open>
  What a frame of the particle effect reads: whether the points object is mounted, the
  \<^verbatim>\<open>isPhotoOpen\<close> prop, \<^verbatim>\<open>Date.now()\<close> at the top of the callback, and, for a batch
  created in this frame, its creation time and its draws.
\<close>

record particle_env =
  pe_mounted :: bool
  pe_isPhotoOpen :: bool
  pe_now :: int
  pe_created :: int
  pe_draws :: firework_draws

definition batchLive :: "int \<Rightarrow> batch \<Rightarrow> bool" where
  "batchLive now b = (real_of_int (now - startTime b) / 1000 < lifetime b)"

text \<open>Lines 573 to 587 of the frame callback: the ambient spawn and the eviction.\<close>

definition particleUseFrame :: "particle_state \<Rightarrow> particle_env \<Rightarrow> particle_state" where
  "particleUseFrame st env =
     (if \<not> pe_mounted env \<or> \<not> isActive st then st
      else
        (let now = pe_now env;
             st1 = (if pe_isPhotoOpen env \<and> now \<ge> nextSpawnTime st \<and>
                       length (particleBatches st) < 8
                    then st \<lparr> particleBatches :=
                                particleBatches st @ [createFirework True (pe_created env) (pe_draws env)],
                              nextSpawnTime := now + 300 \<rparr>
                    else st)
         in st1 \<lparr> particleBatches := filter (batchLive now) (particleBatches st1) \<rparr>))"

text \<open>The effect that runs when the lightbox opens.\<close>

definition photoOpenEffect :: "int \<Rightarrow> int \<Rightarrow> firework_draws \<Rightarrow> particle_state \<Rightarrow> particle_state" where
  "photoOpenEffect now created d st =
     st \<lparr> isActive := True, nextSpawnTime := now,
          particleBatches := [createFirework True created d] \<rparr>"

text \<open>Sample inputs: a batch of lifetime three seconds, and a frame in ambient mode.\<close>

definition midDraws :: firework_draws where
  "midDraws = \<lparr> drawX = 0.5, drawY = 0.5, drawZ = 0.5, drawHeight = 0.5, drawSpeed = 0.5 \<rparr>"

definition sampleBatch :: "int \<Rightarrow> batch" where
  "sampleBatch t = \<lparr> launchPos = zero3, explosionPos = zero3, lifetime = 3, startTime = t \<rparr>"

definition ambientEnv :: "int \<Rightarrow> particle_env" where
  "ambientEnv t =
     \<lparr> pe_mounted = True, pe_isPhotoOpen = True, pe_now = t, pe_created = t, pe_draws = midDraws \<rparr>"

definition fullState :: particle_state where
  "fullState =
     \<lparr> particleBatches = map sampleBatch [0, 100, 200, 300, 400, 500, 600, 700],
       nextSpawnTime = 1000, isActive = True \<rparr>"

text \<open>The wrist-to-palm-base distance that \<^const>\<open>palmSizeOf\<close> measures.\<close>

definition wristDistance :: "landmark \<Rightarrow> landmark \<Rightarrow> real" where
  "wristDistance wrist palmBase =
     hypot (lm_x wrist - lm_x palmBase) (lm_y wrist - lm_y palmBase) (zOr0 wrist - zOr0 palmBase)"

text \<open>
  More vocabulary for the pinch detector: a frame whose top label is one of the two
  that block the pinch, and a frame that reaches the detector with a score or an
  openness it rejects.
\<close>

definition blockingLabel :: "frame \<Rightarrow> bool" where
  "blockingLabel f =
     (case frameTop f of None \<Rightarrow> False | Some c \<Rightarrow> gestureBlocksPinch (categoryName c))"

definition failingHand :: "frame \<Rightarrow> bool" where
  "failingHand f =
     (case pinchInput f of
        None \<Rightarrow> False
      | Some (name, sc, distance, openness) \<Rightarrow> \<not> scoreOk name sc \<or> \<not> opennessOk openness)"

text \<open>
  More sample inputs: a hand like \<^const>\<open>sampleHand\<close> but with the fingertips at distance
  \<open>0.3\<close> (openness \<open>3\<close>, outside the band), and a result without a hand.
\<close>

definition wideHand :: "real \<Rightarrow> landmark list" where
  "wideHand d =
     map (\<lambda>i. if i = 4 then point (0.3 - d)
              else if i = 9 then point 0.1
              else if i \<in> set opennessTipIds then point 0.3
              else point 0)
       [0..<21]"

definition noHandFrame :: frame where
  "noHandFrame = Recognized \<lparr> gestures = [], landmarks = [] \<rparr>"

text \<open>A closed lightbox whose cooldown is over and whose history holds the nearest photo.\<close>

definition viewedState :: experience where
  "viewedState = (Experience_mount 0 CHAOS) \<lparr> recentlyViewedPhotos := [3] \<rparr>"

text \<open>A history that holds four of the five photos nearest to the origin in \<open>sampleGroup\<close>.\<close>

definition seenFour :: "nat list" where
  "seenFour = [3, 5, 1, 6]"

section \<open>Facts about the layout generator\<close>

lemma radial_polar: "radial \<lparr> vx = c * cos t, vy = y, vz = c * sin t \<rparr> = \<bar>c\<bar>"
proof -
  have one: "cos t * cos t + sin t * sin t = 1"
    using sin_cos_squared_add2 [of t] by (simp add: power2_eq_square)
  have "c * cos t * (c * cos t) + c * sin t * (c * sin t) =
          c * c * (cos t * cos t + sin t * sin t)"
    by (simp only: algebra_simps)
  also have "\<dots> = c * c"
    by (simp only: one mult_1_right)
  finally have "radial \<lparr> vx = c * cos t, vy = y, vz = c * sin t \<rparr> = sqrt (c * c)"
    by (simp add: radial_def)
  then show ?thesis
    by simp
qed

lemma coneRadius_draw:
  "coneRadius (r1 * tree_height - tree_height / 2) = tree_radius * (1 - r1)"
  by (simp add: coneRadius_def tree_height_def)

lemma coneRadius_draw_nonneg:
  assumes "isDraw r1"
  shows "0 < coneRadius (r1 * tree_height - tree_height / 2)"
  using assms by (simp add: coneRadius_draw tree_radius_def isDraw_def)

lemma getTreePosition_spec: "getTreePosition r1 r2 r3 = specConicalPosition 0 r1 r2 r3"
  by (simp add: getTreePosition_def specConicalPosition_def Let_def algebra_simps)

lemma getTreePosition_height: "vy (getTreePosition r1 r2 r3) = r1 * tree_height - tree_height / 2"
  by (simp add: getTreePosition_def Let_def)

lemma getTreePosition_radial:
  assumes "isDraw r1" and "isDraw r3"
  shows "radial (getTreePosition r1 r2 r3) = r3 * coneRadius (vy (getTreePosition r1 r2 r3))"
proof -
  have "0 \<le> r3 * (tree_radius * (1 - r1))"
    using assms by (simp add: isDraw_def tree_radius_def)
  then show ?thesis
    unfolding getTreePosition_height coneRadius_draw
    by (simp add: getTreePosition_def Let_def radial_polar tree_height_def)
qed

lemma photoTargetPos_spec: "photoTargetPos r1 r2 = specConicalPosition 0.5 r1 r2 1"
  by (simp add: photoTargetPos_def specConicalPosition_def Let_def algebra_simps)

lemma lightTargetPos_spec: "lightTargetPos r1 r2 = specConicalPosition 0.3 r1 r2 1"
  by (simp add: lightTargetPos_def specConicalPosition_def Let_def algebra_simps)

lemma elementTargetPos_spec: "elementTargetPos r1 r2 = specConicalPosition 0 r1 r2 0.95"
  by (simp add: elementTargetPos_def specConicalPosition_def Let_def algebra_simps)

lemma photoTargetPos_radial:
  assumes "isDraw r1"
  shows "radial (photoTargetPos r1 r2) = coneRadius (vy (photoTargetPos r1 r2)) + 0.5"
proof -
  define c where "c = tree_radius * (1 - r1) + 0.5"
  have p: "photoTargetPos r1 r2 =
             \<lparr> vx = c * cos (r2 * pi * 2), vy = r1 * tree_height - tree_height / 2,
               vz = c * sin (r2 * pi * 2) \<rparr>"
    by (simp add: photoTargetPos_def Let_def c_def tree_height_def)
  have "0 \<le> c"
    using assms by (simp add: c_def isDraw_def tree_radius_def)
  then have "radial (photoTargetPos r1 r2) = c"
    unfolding p radial_polar by simp
  then show ?thesis
    unfolding p by (simp add: coneRadius_draw c_def)
qed

lemma lightTargetPos_radial:
  assumes "isDraw r1"
  shows "radial (lightTargetPos r1 r2) = coneRadius (vy (lightTargetPos r1 r2)) + 0.3"
proof -
  define c where "c = tree_radius * (1 - r1) + 0.3"
  have p: "lightTargetPos r1 r2 =
             \<lparr> vx = c * cos (r2 * pi * 2), vy = r1 * tree_height - tree_height / 2,
               vz = c * sin (r2 * pi * 2) \<rparr>"
    by (simp add: lightTargetPos_def Let_def c_def tree_height_def)
  have "0 \<le> c"
    using assms by (simp add: c_def isDraw_def tree_radius_def)
  then have "radial (lightTargetPos r1 r2) = c"
    unfolding p radial_polar by simp
  then show ?thesis
    unfolding p by (simp add: coneRadius_draw c_def)
qed

lemma elementTargetPos_radial:
  assumes "isDraw r1"
  shows "radial (elementTargetPos r1 r2) = coneRadius (vy (elementTargetPos r1 r2)) * 0.95"
proof -
  define c where "c = tree_radius * (1 - r1) * 0.95"
  have p: "elementTargetPos r1 r2 =
             \<lparr> vx = c * cos (r2 * pi * 2), vy = r1 * tree_height - tree_height / 2,
               vz = c * sin (r2 * pi * 2) \<rparr>"
    by (simp add: elementTargetPos_def Let_def c_def tree_height_def)
  have "0 \<le> c"
    using assms by (simp add: c_def isDraw_def tree_radius_def)
  then have "radial (elementTargetPos r1 r2) = c"
    unfolding p radial_polar by simp
  then show ?thesis
    unfolding p by (simp add: coneRadius_draw c_def)
qed

text \<open>
  Claim C7, as stated: every formed-layout position comes from the conical procedure
  with a radial distance drawn within the local radius, plus a small additive offset.
  The photo ornaments make no radial draw: with the height draw \<open>1/2\<close> and the angle
  draw \<open>0\<close> the ornament is at \<open>(7, 0, 0)\<close>, on the cone surface (radius \<open>6.5\<close>) plus
  \<open>0.5\<close>, whereas the procedure of the claim with a radial draw of \<open>1/2\<close> gives
  \<open>(3.75, 0, 0)\<close>.  The decorations are scaled by \<open>0.95\<close>, which is not an additive
  offset: the gap to the cone surface is \<open>0.65\<close> at the base and \<open>0.325\<close> at mid-height.
\<close>

theorem C7_no_radial_draw_counterexample:
  "photoTargetPos (1 / 2) 0 = \<lparr> vx = 7, vy = 0, vz = 0 \<rparr> \<and>
   specConicalPosition 0.5 (1 / 2) 0 (1 / 2) = \<lparr> vx = 3.75, vy = 0, vz = 0 \<rparr> \<and>
   specConicalPosition 0.5 (1 / 2) 0 (1 / 2) \<noteq> photoTargetPos (1 / 2) 0 \<and>
   coneRadius 0 = 6.5 \<and>
   elementTargetPos 0 0 = \<lparr> vx = 12.35, vy = - 16, vz = 0 \<rparr> \<and>
   elementTargetPos (1 / 2) 0 = \<lparr> vx = 6.175, vy = 0, vz = 0 \<rparr> \<and>
   coneRadius (- 16) - 12.35 \<noteq> coneRadius 0 - 6.175"
  by (simp add: photoTargetPos_def specConicalPosition_def elementTargetPos_def coneRadius_def
      tree_height_def tree_radius_def Let_def)

text \<open>
  Claim C7, amended: \<^verbatim>\<open>getTreePosition\<close> (the foliage targets) is the conical
  procedure: height in \<open>[-16, 16)\<close>, local radius \<open>13 * (1 - normalizedHeight)\<close>, an
  angle in \<open>[0, 2\<pi>)\<close> and a radial distance drawn within the local radius.  Photo
  ornaments and fairy lights draw only the height and the angle and sit at the local
  radius plus \<open>0.5\<close> and \<open>0.3\<close>; decorations sit at \<open>0.95\<close> times the local radius.
\<close>

theorem C7_formed_layout:
  assumes "isDraw r1" and "isDraw r2" and "isDraw r3"
  shows "getTreePosition r1 r2 r3 = specConicalPosition 0 r1 r2 r3 \<and>
         - (tree_height / 2) \<le> vy (getTreePosition r1 r2 r3) \<and>
         vy (getTreePosition r1 r2 r3) < tree_height / 2 \<and>
         0 \<le> r2 * pi * 2 \<and> r2 * pi * 2 < 2 * pi \<and>
         radial (getTreePosition r1 r2 r3) = r3 * coneRadius (vy (getTreePosition r1 r2 r3)) \<and>
         radial (getTreePosition r1 r2 r3) < coneRadius (vy (getTreePosition r1 r2 r3)) \<and>
         photoTargetPos r1 r2 = specConicalPosition 0.5 r1 r2 1 \<and>
         radial (photoTargetPos r1 r2) = coneRadius (vy (photoTargetPos r1 r2)) + 0.5 \<and>
         lightTargetPos r1 r2 = specConicalPosition 0.3 r1 r2 1 \<and>
         radial (lightTargetPos r1 r2) = coneRadius (vy (lightTargetPos r1 r2)) + 0.3 \<and>
         elementTargetPos r1 r2 = specConicalPosition 0 r1 r2 0.95 \<and>
         radial (elementTargetPos r1 r2) = coneRadius (vy (elementTargetPos r1 r2)) * 0.95"
proof -
  have h: "- (tree_height / 2) \<le> vy (getTreePosition r1 r2 r3)"
    "vy (getTreePosition r1 r2 r3) < tree_height / 2"
    using assms(1) by (simp_all add: getTreePosition_height isDraw_def tree_height_def)
  have a: "0 \<le> r2 * pi * 2" "r2 * pi * 2 < 2 * pi"
    using assms(2) by (simp_all add: isDraw_def)
  have c: "0 < coneRadius (vy (getTreePosition r1 r2 r3))"
    using coneRadius_draw_nonneg [OF assms(1)] by (simp add: getTreePosition_height)
  have r: "radial (getTreePosition r1 r2 r3) = r3 * coneRadius (vy (getTreePosition r1 r2 r3))"
    by (rule getTreePosition_radial [OF assms(1) assms(3)])
  have "r3 * coneRadius (vy (getTreePosition r1 r2 r3)) < coneRadius (vy (getTreePosition r1 r2 r3))"
    using c assms(3) by (simp add: isDraw_def)
  with r have lt: "radial (getTreePosition r1 r2 r3) < coneRadius (vy (getTreePosition r1 r2 r3))"
    by simp
  show ?thesis
    using h a r lt getTreePosition_spec [of r1 r2 r3]
      photoTargetPos_spec [of r1 r2] photoTargetPos_radial [OF assms(1), of r2]
      lightTargetPos_spec [of r1 r2] lightTargetPos_radial [OF assms(1), of r2]
      elementTargetPos_spec [of r1 r2] elementTargetPos_radial [OF assms(1), of r2]
    by blast
qed

theorem C7_formed_layout_witness:
  "getTreePosition (1 / 2) 0 (1 / 2) = specConicalPosition 0 (1 / 2) 0 (1 / 2) \<and>
   radial (getTreePosition (1 / 2) 0 (1 / 2)) < coneRadius (vy (getTreePosition (1 / 2) 0 (1 / 2))) \<and>
   radial (photoTargetPos (1 / 2) 0) = coneRadius (vy (photoTargetPos (1 / 2) 0)) + 0.5 \<and>
   radial (lightTargetPos (1 / 2) 0) = coneRadius (vy (lightTargetPos (1 / 2) 0)) + 0.3 \<and>
   radial (elementTargetPos (1 / 2) 0) = coneRadius (vy (elementTargetPos (1 / 2) 0)) * 0.95"
proof -
  have h: "isDraw (1 / 2)" "isDraw 0"
    by (simp_all add: isDraw_def)
  from C7_formed_layout [OF h(1) h(2) h(1)] show ?thesis
    by blast
qed

text \<open>
  Claim C8: given an absent or empty photo list, \<^verbatim>\<open>PhotoOrnaments\<close> returns null
  before any hook runs: no texture is requested and no entity is built.
\<close>

theorem C8_empty_photos_noop:
  "PhotoOrnaments None rnd = \<lparr> texturesRequested = [], rendered = None \<rparr> \<and>
   PhotoOrnaments (Some []) rnd = \<lparr> texturesRequested = [], rendered = None \<rparr>"
  by (simp add: PhotoOrnaments_def)

lemma PhotoOrnaments_nonempty:
  assumes "ps \<noteq> []"
  shows "texturesRequested (PhotoOrnaments (Some ps) rnd) = ps \<and>
         (\<exists>es. rendered (PhotoOrnaments (Some ps) rnd) = Some es \<and> length es = 200 \<and>
               (\<forall>i<200. textureIndex (es ! i) = i mod length ps))"
  using assms by (simp add: PhotoOrnaments_def count_ornaments_def photoEntity_def Let_def)

section \<open>Facts about gesture intake\<close>

lemma hypot_axis: "hypot a 0 0 = \<bar>a\<bar>"
  by (simp add: hypot_def)

lemma hypot_nonneg: "0 \<le> hypot a b c"
  by (simp add: hypot_def)

lemma pinchDistance_point: "pinchDistance (point a) (point b) = \<bar>a - b\<bar>"
  by (simp add: pinchDistance_def point_def zOr0_def Let_def)

lemma point_sel: "lm_x (point a) = a" "lm_y (point a) = 0" "zOr0 (point a) = 0"
  by (simp_all add: point_def zOr0_def)

lemma sampleHand_nth:
  "i < 21 \<Longrightarrow> sampleHand d ! i =
     (if i = 4 then point (0.18 - d) else if i = 9 then point 0.1
      else if i \<in> set opennessTipIds then point 0.18 else point 0)"
  by (simp add: sampleHand_def)

lemma length_sampleHand: "length (sampleHand d) = 21"
  by (simp add: sampleHand_def)

lemma handMetrics_sampleHand:
  "handMetrics (sampleHand d) = Inr (point 0.18, \<bar>d\<bar>, 1.8)"
  by (simp add: handMetrics_def elemAt_def length_sampleHand sampleHand_nth palmBaseOf_def
      opennessTipIds_def pinchDistance_point opennessOf_def palmSizeOf_def point_sel hypot_axis)

lemma palmSizeOf_pos: "0 < palmSizeOf wrist palmBase"
proof -
  have "0 \<le> hypot (lm_x wrist - lm_x palmBase) (lm_y wrist - lm_y palmBase)
              (zOr0 wrist - zOr0 palmBase)"
    by (rule hypot_nonneg)
  then show ?thesis
    by (auto simp: palmSizeOf_def Let_def)
qed

lemma palmSizeOf_same: "palmSizeOf wrist wrist = 1 / 1000000"
  by (simp add: palmSizeOf_def hypot_def)

lemma tipSumLoop_full:
  assumes "21 \<le> length l"
  shows "tipSumLoop (l ! 0) l opennessTipIds 0 =
           Some (tipDistance l 8 + tipDistance l 12 + tipDistance l 16 + tipDistance l 20)"
  using assms by (simp add: opennessTipIds_def elemAt_def tipDistance_def)

lemma tipSumLoop_None:
  "tipSumLoop w l ids acc = None \<longleftrightarrow> (\<exists>i\<in>set ids. length l \<le> i)"
  by (induction ids arbitrary: acc) (auto simp: elemAt_def)

lemma handMetrics_full:
  assumes "21 \<le> length l"
  shows "handMetrics l =
           Inr (l ! 8, pinchDistance (l ! 8) (l ! 4),
                opennessOf (tipDistance l 8 + tipDistance l 12 + tipDistance l 16 + tipDistance l 20)
                  (palmSizeOf (l ! 0) (l ! 9)))"
  using assms tipSumLoop_full [OF assms]
  by (auto simp: handMetrics_def elemAt_def palmBaseOf_def)

lemma handMetrics_short:
  assumes "length l < 21"
  shows "handMetrics l = Inl TypeError"
proof -
  have "tipSumLoop w l opennessTipIds 0 = None" for w
    unfolding tipSumLoop_None using assms by (simp add: opennessTipIds_def)
  then show ?thesis
    by (simp add: handMetrics_def split: option.splits)
qed


lemma pinchStage_cong:
  assumes "pinchState r1 = pinchState r" and "pinchChangeStableCount r1 = pinchChangeStableCount r"
  shows "pinchState (pinchStage r1 name sc d o') = pinchState (pinchStage r name sc d o')"
    and "pinchChangeStableCount (pinchStage r1 name sc d o') =
         pinchChangeStableCount (pinchStage r name sc d o')"
  using assms by (simp_all add: pinchStage_def Let_def)

lemma gestureStage_cases:
  "gestureStage refs gs =
     (case gs of
        [] \<Rightarrow> Inr (refs, '''', 0, [])
      | [] # _ \<Rightarrow> Inl TypeError
      | (c # _) # _ \<Rightarrow>
          Inr (if categoryName c = lastGesture refs
               then refs \<lparr> gestureStableCount := gestureStableCount refs + 1 \<rparr>
               else refs \<lparr> lastGesture := categoryName c, gestureStableCount := 0 \<rparr>,
               categoryName c, score c,
               if 0.35 < score c \<and> categoryName c = lastGesture refs \<and> 1 \<le> gestureStableCount refs
               then (if categoryName c = ''Open_Palm'' then [CHAOS] else []) @
                    (if categoryName c = ''Closed_Fist'' then [FORMED] else [])
               else []))"
  by (simp add: gestureStage_def Let_def split: list.splits)

lemma gestureStage_pinch_fields:
  assumes "gestureStage refs gs = Inr (refs1, name, sc, intents)"
  shows "pinchState refs1 = pinchState refs \<and>
         pinchChangeStableCount refs1 = pinchChangeStableCount refs"
  using assms by (auto simp: gestureStage_cases split: list.splits if_splits)

lemma gestureStage_name:
  assumes "gestureStage refs gs = Inr (refs1, name, sc, intents)"
  shows "\<exists>refs1' intents'. gestureStage refs' gs = Inr (refs1', name, sc, intents')"
  using assms by (auto simp: gestureStage_cases split: list.splits)

lemma gestureStage_throws:
  assumes "gestureStage refs gs = Inl e"
  shows "gestureStage refs' gs = Inl e"
  using assms by (auto simp: gestureStage_cases split: list.splits)

lemma pinch_step_input:
  assumes "pinchInput f = Some (name, sc, d, o')"
  shows "pinchState (fst (predictWebcam refs f)) = pinchState (pinchStage refs name sc d o') \<and>
         pinchChangeStableCount (fst (predictWebcam refs f)) =
           pinchChangeStableCount (pinchStage refs name sc d o')"
proof -
  from assms obtain results where f: "f = Recognized results"
    by (cases f) (simp_all add: pinchInput_def)
  from assms f obtain r0 i0 where g0: "gestureStage initialRefs (gestures results) = Inr (r0, name, sc, i0)"
    by (auto simp: pinchInput_def split: sum.splits option.splits)
  from assms f g0 obtain l tip where l: "handOf results = Some l"
    and m: "handMetrics l = Inr (tip, d, o')"
    by (auto simp: pinchInput_def split: sum.splits option.splits)
  from gestureStage_name [OF g0, of refs] obtain r1 i1 where
    g: "gestureStage refs (gestures results) = Inr (r1, name, sc, i1)"
    by blast
  have p: "fst (predictWebcam refs f) = pinchStage r1 name sc d o'"
    by (simp add: predictWebcam_def f g l m Let_def)
  show ?thesis
    unfolding p using pinchStage_cong [of r1 refs] gestureStage_pinch_fields [OF g] by simp
qed

lemma pinch_step_none:
  assumes "pinchInput f = None" and "f \<noteq> VideoNotReady"
  shows "pinchState (fst (predictWebcam refs f)) = False \<and>
         pinchChangeStableCount (fst (predictWebcam refs f)) = 0"
proof (cases f)
  case VideoNotReady
  with assms(2) show ?thesis by simp
next
  case ClassifierThrows
  then show ?thesis by (simp add: predictWebcam_def catchBlock_def)
next
  case (Recognized results)
  show ?thesis
  proof (cases "gestureStage refs (gestures results)")
    case (Inl e)
    then show ?thesis by (simp add: predictWebcam_def Recognized catchBlock_def)
  next
    case (Inr t)
    then obtain r1 name sc i1 where g: "gestureStage refs (gestures results) = Inr (r1, name, sc, i1)"
      by (cases t) auto
    from gestureStage_name [OF g, of initialRefs] obtain r0 i0 where
      g0: "gestureStage initialRefs (gestures results) = Inr (r0, name, sc, i0)"
      by blast
    show ?thesis
    proof (cases "handOf results")
      case None
      then show ?thesis by (simp add: predictWebcam_def Recognized g Let_def)
    next
      case (Some l)
      with assms(1) g0 have "\<exists>e. handMetrics l = Inl e"
        by (auto simp: pinchInput_def Recognized split: sum.splits)
      then show ?thesis
        by (auto simp: predictWebcam_def Recognized g Some catchBlock_def)
    qed
  qed
qed

lemma pinchStage_rise:
  assumes "\<not> pinchState r" and "pinchState (pinchStage r name sc d o')"
  shows "d < pinchDownThreshold \<and> opennessOk o' \<and> scoreOk name sc \<and> \<not> gestureBlocksPinch name \<and>
         1 \<le> pinchChangeStableCount r"
  using assms by (auto simp: pinchStage_def rawPinch_def Let_def split: if_splits)

lemma pinchStage_fall:
  assumes "pinchState r" and "\<not> pinchState (pinchStage r name sc d o')"
    and "\<not> gestureBlocksPinch name"
  shows "\<not> rawPinch True name sc d o' \<and> 1 \<le> pinchChangeStableCount r"
  using assms by (auto simp: pinchStage_def Let_def split: if_splits)

lemma pinchStage_pending:
  assumes "1 \<le> pinchChangeStableCount (pinchStage r name sc d o')"
  shows "pinchState (pinchStage r name sc d o') = pinchState r \<and>
         rawPinch (pinchState r) name sc d o' \<noteq> pinchState r \<and> \<not> gestureBlocksPinch name"
  using assms by (auto simp: pinchStage_def Let_def split: if_splits)

lemma pinchStage_hold_low:
  assumes "\<not> pinchState r" and "pinchDownThreshold \<le> d"
  shows "\<not> pinchState (pinchStage r name sc d o')"
  using assms by (auto simp: pinchStage_def rawPinch_def Let_def split: if_splits)

lemma pinchStage_hold_band:
  assumes "pinchDownThreshold \<le> d" and "d < pinchUpThreshold"
    and "opennessOk o'" and "scoreOk name sc" and "\<not> gestureBlocksPinch name"
  shows "pinchState (pinchStage r name sc d o') = pinchState r"
  using assms by (auto simp: pinchStage_def rawPinch_def Let_def split: if_splits)

lemma handMetrics_distance:
  assumes "handMetrics l = Inr (tip, d, o')"
  shows "\<exists>thumb. elemAt l 8 = Some tip \<and> elemAt l 4 = Some thumb \<and> d = pinchDistance tip thumb"
  using assms by (auto simp: handMetrics_def split: option.splits)

lemma pinchInput_distance:
  assumes "pinchInput f = Some (name, sc, d, o')"
  shows "frameDistance f = Some d"
proof -
  from assms obtain results where f: "f = Recognized results"
    by (cases f) (simp_all add: pinchInput_def)
  from assms f obtain l tip where l: "handOf results = Some l"
    and m: "handMetrics l = Inr (tip, d, o')"
    by (auto simp: pinchInput_def split: sum.splits option.splits)
  from handMetrics_distance [OF m] show ?thesis
    by (auto simp: frameDistance_def frameHand_def f l)
qed

lemma pinchInput_name:
  assumes "pinchInput f = Some (name, sc, d, o')"
  shows "case frameTop f of None \<Rightarrow> name = '''' | Some c \<Rightarrow> name = categoryName c \<and> sc = score c"
  using assms
  by (cases f) (auto simp: pinchInput_def frameTop_def gestureStage_cases
      split: sum.splits option.splits list.splits)

lemma steadyHand_input:
  assumes "steadyHand f"
  shows "\<exists>name sc d o'. pinchInput f = Some (name, sc, d, o') \<and> opennessOk o' \<and>
           scoreOk name sc \<and> \<not> gestureBlocksPinch name"
proof -
  from assms obtain results where f: "f = Recognized results"
    by (cases f) (simp_all add: steadyHand_def frameHand_def)
  from assms f obtain l where l: "handOf results = Some l"
    by (auto simp: steadyHand_def frameHand_def split: option.splits)
  from assms f l obtain tip d o' where m: "handMetrics l = Inr (tip, d, o')" and ok: "opennessOk o'"
    by (auto simp: steadyHand_def frameHand_def split: sum.splits)
  from assms f have g: "case gestures results of [] \<Rightarrow> True | g # _ \<Rightarrow> g \<noteq> []"
    by (simp add: steadyHand_def noThrow_def)
  show ?thesis
  proof (cases "frameTop f")
    case None
    with g f have "gestures results = []"
      by (auto simp: frameTop_def split: list.splits)
    then have "pinchInput f = Some ('''', 0, d, o')"
      by (simp add: pinchInput_def f gestureStage_cases l m)
    with ok show ?thesis
      by (simp add: scoreOk_def gestureBlocksPinch_def)
  next
    case (Some c)
    with f obtain cs gs where "gestures results = (c # cs) # gs"
      by (auto simp: frameTop_def split: list.splits)
    then have "pinchInput f = Some (categoryName c, score c, d, o')"
      by (simp add: pinchInput_def f gestureStage_cases l m)
    moreover from assms f l m Some have "\<not> gestureBlocksPinch (categoryName c)"
      "scoreOk (categoryName c) (score c)"
      by (simp_all add: steadyHand_def frameHand_def)
    ultimately show ?thesis
      using ok by blast
  qed
qed

lemma pinch_rise_two_frames:
  assumes "f1 \<noteq> VideoNotReady"
    and "\<not> pinchState (fst (predictWebcam r0 f1))"
    and "pinchState (fst (predictWebcam (fst (predictWebcam r0 f1)) f2))"
  shows "distanceBelow pinchDownThreshold f1 \<and> distanceBelow pinchDownThreshold f2"
proof -
  define r1 where "r1 = fst (predictWebcam r0 f1)"
  have n1: "\<not> pinchState r1" and p2: "pinchState (fst (predictWebcam r1 f2))"
    using assms(2,3) by (simp_all add: r1_def)
  have "f2 \<noteq> VideoNotReady"
    using n1 p2 by (auto simp: predictWebcam_def)
  with p2 obtain n2 s2 d2 o2 where i2: "pinchInput f2 = Some (n2, s2, d2, o2)"
    using pinch_step_none [of f2 r1] by (cases "pinchInput f2") auto
  from p2 pinch_step_input [OF i2, of r1] have "pinchState (pinchStage r1 n2 s2 d2 o2)"
    by simp
  from pinchStage_rise [OF n1 this] have d2: "d2 < pinchDownThreshold"
    and c1: "1 \<le> pinchChangeStableCount r1"
    by simp_all
  from c1 assms(1) obtain n1' s1 d1 o1 where i1: "pinchInput f1 = Some (n1', s1, d1, o1)"
    using pinch_step_none [of f1 r0] by (cases "pinchInput f1") (auto simp: r1_def)
  from c1 pinch_step_input [OF i1, of r0]
  have "1 \<le> pinchChangeStableCount (pinchStage r0 n1' s1 d1 o1)"
    by (simp add: r1_def)
  from pinchStage_pending [OF this] n1 pinch_step_input [OF i1, of r0]
  have "rawPinch False n1' s1 d1 o1"
    by (auto simp: r1_def)
  then have d1: "d1 < pinchDownThreshold"
    by (simp add: rawPinch_def)
  show ?thesis
    using d1 d2 pinchInput_distance [OF i1] pinchInput_distance [OF i2]
    by (simp add: distanceBelow_def)
qed

lemma pinch_fall_two_frames:
  assumes "steadyHand f1" and "steadyHand f2"
    and "pinchState (fst (predictWebcam r0 f1))"
    and "\<not> pinchState (fst (predictWebcam (fst (predictWebcam r0 f1)) f2))"
  shows "distanceAtLeast pinchUpThreshold f1 \<and> distanceAtLeast pinchUpThreshold f2"
proof -
  define r1 where "r1 = fst (predictWebcam r0 f1)"
  have p1: "pinchState r1" and n2: "\<not> pinchState (fst (predictWebcam r1 f2))"
    using assms(3,4) by (simp_all add: r1_def)
  from steadyHand_input [OF assms(1)] obtain n1 s1 d1 o1 where
    i1: "pinchInput f1 = Some (n1, s1, d1, o1)" and ok1: "opennessOk o1" "scoreOk n1 s1"
      "\<not> gestureBlocksPinch n1"
    by blast
  from steadyHand_input [OF assms(2)] obtain n2' s2 d2 o2 where
    i2: "pinchInput f2 = Some (n2', s2, d2, o2)" and ok2: "opennessOk o2" "scoreOk n2' s2"
      "\<not> gestureBlocksPinch n2'"
    by blast
  from n2 pinch_step_input [OF i2, of r1] have "\<not> pinchState (pinchStage r1 n2' s2 d2 o2)"
    by simp
  from pinchStage_fall [OF p1 this ok2(3)] have raw2: "\<not> rawPinch True n2' s2 d2 o2"
    and c1: "1 \<le> pinchChangeStableCount r1"
    by simp_all
  from c1 pinch_step_input [OF i1, of r0]
  have "1 \<le> pinchChangeStableCount (pinchStage r0 n1 s1 d1 o1)"
    by (simp add: r1_def)
  from pinchStage_pending [OF this] p1 pinch_step_input [OF i1, of r0]
  have raw1: "\<not> rawPinch True n1 s1 d1 o1"
    by (auto simp: r1_def)
  have "pinchUpThreshold \<le> d1" "pinchUpThreshold \<le> d2"
    using raw1 raw2 ok1 ok2 by (simp_all add: rawPinch_def)
  then show ?thesis
    using pinchInput_distance [OF i1] pinchInput_distance [OF i2]
    by (simp add: distanceAtLeast_def)
qed

lemma pinch_stays_released_step:
  assumes "\<not> pinchState r" and "\<not> distanceBelow pinchDownThreshold f"
  shows "\<not> pinchState (fst (predictWebcam r f))"
proof (cases "pinchInput f")
  case None
  then show ?thesis
    using assms(1) pinch_step_none [OF None, of r] by (cases "f = VideoNotReady") (auto simp: predictWebcam_def)
next
  case (Some t)
  then obtain name sc d o' where i: "pinchInput f = Some (name, sc, d, o')"
    by (cases t) auto
  from assms(2) pinchInput_distance [OF i] have "pinchDownThreshold \<le> d"
    by (simp add: distanceBelow_def)
  from pinchStage_hold_low [OF assms(1) this] pinch_step_input [OF i, of r] show ?thesis
    by simp
qed

lemma pinch_stays_released:
  assumes "\<not> pinchState r" and "\<forall>f\<in>set fs. \<not> distanceBelow pinchDownThreshold f"
  shows "\<not> pinchState (refsAfter r fs)"
  using assms
proof (induction fs arbitrary: r)
  case Nil
  then show ?case by simp
next
  case (Cons f fs)
  from Cons.prems have "\<not> pinchState (fst (predictWebcam r f))"
    by (simp add: pinch_stays_released_step)
  with Cons show ?case by simp
qed

lemma pinch_holds_in_band_step:
  assumes "steadyHand f" and "distanceAtLeast pinchDownThreshold f"
    and "distanceBelow pinchUpThreshold f"
  shows "pinchState (fst (predictWebcam r f)) = pinchState r"
proof -
  from steadyHand_input [OF assms(1)] obtain name sc d o' where
    i: "pinchInput f = Some (name, sc, d, o')" and ok: "opennessOk o'" "scoreOk name sc"
      "\<not> gestureBlocksPinch name"
    by blast
  from assms(2,3) pinchInput_distance [OF i] have "pinchDownThreshold \<le> d" "d < pinchUpThreshold"
    by (simp_all add: distanceAtLeast_def distanceBelow_def)
  from pinchStage_hold_band [OF this ok] pinch_step_input [OF i, of r] show ?thesis
    by simp
qed

lemma pinch_holds_in_band:
  assumes "\<forall>f\<in>set fs. steadyHand f \<and> distanceAtLeast pinchDownThreshold f \<and>
             distanceBelow pinchUpThreshold f"
  shows "pinchState (refsAfter r fs) = pinchState r"
  using assms
proof (induction fs arbitrary: r)
  case Nil
  then show ?case by simp
next
  case (Cons f fs)
  from Cons.prems have "pinchState (fst (predictWebcam r f)) = pinchState r"
    by (simp add: pinch_holds_in_band_step)
  with Cons show ?case by simp
qed

lemma predictWebcam_intents:
  "out_intents (snd (predictWebcam refs f)) =
     (case frameTop f of
        None \<Rightarrow> []
      | Some c \<Rightarrow>
          if 0.35 < score c \<and> categoryName c = lastGesture refs \<and> 1 \<le> gestureStableCount refs
          then (if categoryName c = ''Open_Palm'' then [CHAOS] else []) @
               (if categoryName c = ''Closed_Fist'' then [FORMED] else [])
          else [])"
proof (cases f)
  case VideoNotReady
  then show ?thesis by (simp add: predictWebcam_def frameTop_def)
next
  case ClassifierThrows
  then show ?thesis by (simp add: predictWebcam_def frameTop_def catchBlock_def)
next
  case (Recognized results)
  show ?thesis
  proof (cases "gestureStage refs (gestures results)")
    case (Inl e)
    then have "frameTop f = None"
      by (auto simp: gestureStage_cases frameTop_def Recognized split: list.splits)
    with Inl show ?thesis
      by (simp add: predictWebcam_def Recognized catchBlock_def)
  next
    case (Inr t)
    then obtain r1 name sc intents where
      g: "gestureStage refs (gestures results) = Inr (r1, name, sc, intents)"
      by (cases t) auto
    have o: "out_intents (snd (predictWebcam refs f)) = intents"
      by (simp add: predictWebcam_def Recognized g Let_def catchBlock_def
          split: option.splits sum.splits prod.splits)
    from g show ?thesis
      unfolding o by (auto simp: gestureStage_cases frameTop_def Recognized split: list.splits)
  qed
qed

lemma predictWebcam_label_refs:
  assumes "noThrow f" and "frameTop f = Some c"
  shows "lastGesture (fst (predictWebcam refs f)) = categoryName c \<and>
         gestureStableCount (fst (predictWebcam refs f)) =
           (if categoryName c = lastGesture refs then gestureStableCount refs + 1 else 0)"
proof -
  from assms(2) obtain results where f: "f = Recognized results"
    by (cases f) (simp_all add: frameTop_def)
  from assms(2) f obtain cs gs where gs: "gestures results = (c # cs) # gs"
    by (auto simp: frameTop_def split: list.splits)
  define r1 where "r1 =
    (if categoryName c = lastGesture refs
     then refs \<lparr> gestureStableCount := gestureStableCount refs + 1 \<rparr>
     else refs \<lparr> lastGesture := categoryName c, gestureStableCount := 0 \<rparr>)"
  obtain intents where g: "gestureStage refs ((c # cs) # gs) = Inr (r1, categoryName c, score c, intents)"
    by (simp add: gestureStage_cases r1_def)
  have r1: "lastGesture r1 = categoryName c"
    "gestureStableCount r1 = (if categoryName c = lastGesture refs then gestureStableCount refs + 1 else 0)"
    by (simp_all add: r1_def)
  show ?thesis
  proof (cases "handOf results")
    case None
    then show ?thesis
      using r1 by (simp add: predictWebcam_def f g Let_def gs)
  next
    case (Some l)
    with assms(1) f have "21 \<le> length l"
      by (simp add: noThrow_def)
    from handMetrics_full [OF this] show ?thesis
      using r1 by (simp add: predictWebcam_def f g gs Some Let_def pinchStage_def)
  qed
qed

lemma appFrame_pair:
  "appFrame (s, r) f = (applyIntents s (out_intents (snd (predictWebcam r f))), fst (predictWebcam r f))"
  by (simp add: appFrame_def split: prod.splits)

lemma confident_step:
  assumes "confidentLabel name f" and "name = ''Open_Palm'' \<or> name = ''Closed_Fist''"
  shows "appFrame (s, r) f =
           (if lastGesture r = name \<and> 1 \<le> gestureStableCount r
            then (if name = ''Open_Palm'' then CHAOS else FORMED) else s,
            fst (predictWebcam r f)) \<and>
         lastGesture (fst (predictWebcam r f)) = name \<and>
         gestureStableCount (fst (predictWebcam r f)) =
           (if lastGesture r = name then gestureStableCount r + 1 else 0)"
proof -
  from assms(1) obtain c where c: "frameTop f = Some c" "categoryName c = name" "0.35 < score c"
    and n: "noThrow f"
    by (auto simp: confidentLabel_def split: option.splits)
  from predictWebcam_label_refs [OF n c(1), of r] c(2,3) assms(2) show ?thesis
    by (auto simp: appFrame_pair predictWebcam_intents c(1) applyIntents_def)
qed

lemma stable_run:
  assumes "\<forall>f\<in>set fs. confidentLabel name f" and "name = ''Open_Palm'' \<or> name = ''Closed_Fist''"
    and "lastGesture r = name" and "1 \<le> gestureStableCount r"
  shows "sceneTrace (s, r) fs = replicate (length fs) (if name = ''Open_Palm'' then CHAOS else FORMED)"
  using assms(1,3,4)
proof (induction fs arbitrary: s r)
  case Nil
  then show ?case by simp
next
  case (Cons f fs)
  from Cons.prems(1) have cf: "confidentLabel name f"
    by simp
  note st = confident_step [OF cf assms(2), of s r]
  let ?t = "if name = ''Open_Palm'' then CHAOS else FORMED"
  have a: "appFrame (s, r) f = (?t, fst (predictWebcam r f))"
    using st Cons.prems(2,3) by simp
  have "sceneTrace (?t, fst (predictWebcam r f)) fs = replicate (length fs) ?t"
    using Cons.prems st by (intro Cons.IH) auto
  then show ?case
    by (simp add: a)
qed

lemma toggles_replicate: "toggles (replicate n a) = 0"
proof (induction n)
  case 0
  then show ?case by simp
next
  case (Suc n)
  then show ?case by (cases n) simp_all
qed

lemma toggles_Cons_replicate:
  "toggles (a # replicate n b) = (if n = 0 \<or> a = b then 0 else 1)"
  using toggles_replicate [of n b] by (cases n) simp_all

lemma new_label_run:
  assumes "\<forall>f\<in>set fs. confidentLabel name f" and "name = ''Open_Palm'' \<or> name = ''Closed_Fist''"
    and "lastGesture r \<noteq> name" and "3 \<le> length fs"
  shows "sceneTrace (s, r) fs =
           [s, s] @ replicate (length fs - 2) (if name = ''Open_Palm'' then CHAOS else FORMED)"
proof -
  from assms(4) obtain f1 f2 rest where fs: "fs = f1 # f2 # rest"
    by (cases fs; cases "tl fs") auto
  from assms(1) fs have c1: "confidentLabel name f1" and c2: "confidentLabel name f2"
    and cr: "\<forall>f\<in>set rest. confidentLabel name f"
    by simp_all
  define r1 where "r1 = fst (predictWebcam r f1)"
  define r2 where "r2 = fst (predictWebcam r1 f2)"
  from confident_step [OF c1 assms(2), of s r] assms(3)
  have a1: "appFrame (s, r) f1 = (s, r1)" and l1: "lastGesture r1 = name"
    and n1: "gestureStableCount r1 = 0"
    by (simp_all add: r1_def)
  from confident_step [OF c2 assms(2), of s r1] l1 n1
  have a2: "appFrame (s, r1) f2 = (s, r2)" and l2: "lastGesture r2 = name"
    and n2: "gestureStableCount r2 = 1"
    by (simp_all add: r2_def)
  from stable_run [OF cr assms(2) l2, of s] n2
  have "sceneTrace (s, r2) rest =
          replicate (length rest) (if name = ''Open_Palm'' then CHAOS else FORMED)"
    by simp
  then show ?thesis
    by (simp add: fs a1 a2)
qed

lemma labelled_step_scene:
  assumes "hasLabel a f" and "a = ''Open_Palm'' \<longrightarrow> s = CHAOS" and "a = ''Closed_Fist'' \<longrightarrow> s = FORMED"
  shows "fst (appFrame (s, r) f) = s"
  using assms
  by (auto simp: appFrame_pair predictWebcam_intents hasLabel_def applyIntents_def
      split: option.splits)

lemma flicker_step_scene:
  assumes "hasLabel b f" and "lastGesture r \<noteq> b"
  shows "fst (appFrame (s, r) f) = s"
  using assms
  by (auto simp: appFrame_pair predictWebcam_intents hasLabel_def applyIntents_def
      split: option.splits)

lemma labelled_run_scene:
  assumes "\<forall>f\<in>set fs. hasLabel a f" and "a = ''Open_Palm'' \<longrightarrow> s = CHAOS"
    and "a = ''Closed_Fist'' \<longrightarrow> s = FORMED"
  shows "sceneTrace (s, r) fs = replicate (length fs) s"
  using assms(1)
proof (induction fs arbitrary: r)
  case Nil
  then show ?case by simp
next
  case (Cons f fs)
  from Cons.prems have "hasLabel a f"
    by simp
  from labelled_step_scene [OF this assms(2,3), of r]
  obtain r' where "appFrame (s, r) f = (s, r')"
    by (metis prod.collapse)
  with Cons show ?case
    by simp
qed

lemma flicker_run:
  assumes "hasLabel b fb" and "lastGesture r \<noteq> b" and "\<forall>f\<in>set fs. hasLabel a f"
    and "a = ''Open_Palm'' \<longrightarrow> s = CHAOS" and "a = ''Closed_Fist'' \<longrightarrow> s = FORMED"
  shows "sceneTrace (s, r) (fb # fs) = replicate (Suc (length fs)) s"
proof -
  from flicker_step_scene [OF assms(1,2), of s]
  obtain r' where "appFrame (s, r) fb = (s, r')"
    by (metis prod.collapse)
  with labelled_run_scene [OF assms(3,4,5), of r'] show ?thesis
    by simp
qed
lemma frameTop_labelled [simp]:
  "frameTop (labelledFrame name sc l) = Some \<lparr> categoryName = name, score = sc \<rparr>"
  by (simp add: frameTop_def labelledFrame_def)

lemma frameTop_unlabelled [simp]: "frameTop (unlabelledFrame l) = None"
  by (simp add: frameTop_def unlabelledFrame_def)

lemma frameHand_sample [simp]:
  "frameHand (labelledFrame name sc (sampleHand d)) = Some (sampleHand d)"
  "frameHand (unlabelledFrame (sampleHand d)) = Some (sampleHand d)"
  by (simp_all add: frameHand_def handOf_def labelledFrame_def unlabelledFrame_def length_sampleHand)

lemma noThrow_sample [simp]:
  "noThrow (labelledFrame name sc (sampleHand d))"
  "noThrow (unlabelledFrame (sampleHand d))"
  by (simp_all add: noThrow_def handOf_def labelledFrame_def unlabelledFrame_def length_sampleHand)

lemma pinchInput_sample [simp]:
  "pinchInput (labelledFrame name sc (sampleHand d)) = Some (name, sc, \<bar>d\<bar>, 1.8)"
  "pinchInput (unlabelledFrame (sampleHand d)) = Some ('''', 0, \<bar>d\<bar>, 1.8)"
  by (simp_all add: pinchInput_def labelledFrame_def unlabelledFrame_def gestureStage_cases
      handOf_def length_sampleHand handMetrics_sampleHand)

lemma frameDistance_sample [simp]:
  "frameDistance (labelledFrame name sc (sampleHand d)) = Some \<bar>d\<bar>"
  "frameDistance (unlabelledFrame (sampleHand d)) = Some \<bar>d\<bar>"
  by (simp_all add: pinchInput_distance [where name = name and sc = sc and o' = "1.8"]
      pinchInput_distance [where name = "''''" and sc = 0 and o' = "1.8"])

lemma steadyHand_unlabelled_sample [simp]: "steadyHand (unlabelledFrame (sampleHand d))"
  by (simp add: steadyHand_def handMetrics_sampleHand opennessOk_def)

lemma pinch_sample_step:
  "pinchState (fst (predictWebcam r (unlabelledFrame (sampleHand d)))) =
     pinchState (pinchStage r '''' 0 \<bar>d\<bar> 1.8)"
  "pinchChangeStableCount (fst (predictWebcam r (unlabelledFrame (sampleHand d)))) =
     pinchChangeStableCount (pinchStage r '''' 0 \<bar>d\<bar> 1.8)"
  "pinchState (fst (predictWebcam r (labelledFrame name sc (sampleHand d)))) =
     pinchState (pinchStage r name sc \<bar>d\<bar> 1.8)"
  "pinchChangeStableCount (fst (predictWebcam r (labelledFrame name sc (sampleHand d)))) =
     pinchChangeStableCount (pinchStage r name sc \<bar>d\<bar> 1.8)"
  using pinch_step_input [OF pinchInput_sample(2), of r d]
    pinch_step_input [OF pinchInput_sample(1), of r name sc d]
  by simp_all

lemmas pinch_eval =
  pinch_sample_step pinchStage_def rawPinch_def gestureBlocksPinch_def scoreOk_def opennessOk_def
  pinchDownThreshold_def pinchUpThreshold_def pinchedRefs_def initialRefs_def Let_def

lemma pinch_step_blocking:
  assumes "blockingLabel f"
  shows "\<not> pinchState (fst (predictWebcam r f)) \<and>
         pinchChangeStableCount (fst (predictWebcam r f)) = 0"
proof (cases "pinchInput f")
  case None
  from assms have "f \<noteq> VideoNotReady"
    by (auto simp: blockingLabel_def frameTop_def)
  from pinch_step_none [OF None this] show ?thesis
    by simp
next
  case (Some t)
  then obtain name sc d o' where i: "pinchInput f = Some (name, sc, d, o')"
    by (cases t) auto
  from pinchInput_name [OF i] assms have "gestureBlocksPinch name"
    by (auto simp: blockingLabel_def split: option.splits)
  then have "\<not> pinchState (pinchStage r name sc d o') \<and>
             pinchChangeStableCount (pinchStage r name sc d o') = 0"
    by (simp add: pinchStage_def Let_def)
  with pinch_step_input [OF i, of r] show ?thesis
    by simp
qed

lemma pinchInput_no_hand:
  assumes "frameHand f = None"
  shows "pinchInput f = None"
  using assms
  by (cases f) (auto simp: pinchInput_def frameHand_def split: sum.splits)

lemma pinch_step_no_hand:
  assumes "f \<noteq> VideoNotReady" and "frameHand f = None"
  shows "\<not> pinchState (fst (predictWebcam r f)) \<and>
         pinchChangeStableCount (fst (predictWebcam r f)) = 0"
  using pinch_step_none [OF pinchInput_no_hand [OF assms(2)] assms(1), of r] by simp

lemma predictWebcam_throw:
  assumes "\<not> noThrow f"
  shows "fst (predictWebcam r f) = initialRefs"
proof (cases f)
  case VideoNotReady
  with assms show ?thesis
    by (simp add: noThrow_def)
next
  case ClassifierThrows
  then show ?thesis
    by (simp add: predictWebcam_def catchBlock_def initialRefs_def)
next
  case (Recognized results)
  show ?thesis
  proof (cases "gestureStage r (gestures results)")
    case (Inl e)
    then show ?thesis
      by (simp add: predictWebcam_def Recognized catchBlock_def initialRefs_def)
  next
    case (Inr t)
    then obtain r1 name sc i1 where g: "gestureStage r (gestures results) = Inr (r1, name, sc, i1)"
      by (cases t) auto
    then have ok: "case gestures results of [] \<Rightarrow> True | g # _ \<Rightarrow> g \<noteq> []"
      by (auto simp: gestureStage_cases split: list.splits)
    with assms Recognized obtain l where l: "handOf results = Some l" and s: "length l < 21"
      by (auto simp: noThrow_def split: option.splits)
    from handMetrics_short [OF s] show ?thesis
      by (simp add: predictWebcam_def Recognized g l catchBlock_def initialRefs_def)
  qed
qed

lemma pinchStage_failing:
  assumes "\<not> scoreOk name sc \<or> \<not> opennessOk o'"
  shows "\<not> rawPinch p name sc d o'"
  using assms by (auto simp: rawPinch_def Let_def)

lemma pinchStage_raw_False:
  assumes "\<not> rawPinch (pinchState r) name sc d o'"
  shows "(\<not> pinchState r \<longrightarrow> \<not> pinchState (pinchStage r name sc d o')) \<and>
         (1 \<le> pinchChangeStableCount r \<longrightarrow> \<not> pinchState (pinchStage r name sc d o')) \<and>
         (pinchState (pinchStage r name sc d o') \<longrightarrow> 1 \<le> pinchChangeStableCount (pinchStage r name sc d o'))"
  using assms by (auto simp: pinchStage_def Let_def)

lemma failing_two_frames:
  assumes "failingHand f1" and "failingHand f2"
  shows "\<not> pinchState (refsAfter r [f1, f2])"
proof -
  from assms(1) obtain n1 s1 d1 o1 where i1: "pinchInput f1 = Some (n1, s1, d1, o1)"
    and b1: "\<not> scoreOk n1 s1 \<or> \<not> opennessOk o1"
    by (auto simp: failingHand_def split: option.splits)
  from assms(2) obtain n2 s2 d2 o2 where i2: "pinchInput f2 = Some (n2, s2, d2, o2)"
    and b2: "\<not> scoreOk n2 s2 \<or> \<not> opennessOk o2"
    by (auto simp: failingHand_def split: option.splits)
  define r1 where "r1 = fst (predictWebcam r f1)"
  define q1 where "q1 = pinchStage r n1 s1 d1 o1"
  have e1: "pinchState r1 = pinchState q1" "pinchChangeStableCount r1 = pinchChangeStableCount q1"
    using pinch_step_input [OF i1, of r] by (simp_all add: r1_def q1_def)
  have k1: "pinchState q1 \<longrightarrow> 1 \<le> pinchChangeStableCount q1"
    using pinchStage_raw_False [OF pinchStage_failing [OF b1], of r d1] by (simp add: q1_def)
  have "\<not> pinchState (pinchStage r1 n2 s2 d2 o2)"
    using pinchStage_raw_False [OF pinchStage_failing [OF b2], of r1 d2] k1 e1 by auto
  with pinch_step_input [OF i2, of r1] show ?thesis
    by (simp add: r1_def)
qed

lemma settled_frame_keeps:
  assumes "pinchChangeStableCount r = 0" and "pinchInput f \<noteq> None" and "\<not> blockingLabel f"
  shows "pinchState (fst (predictWebcam r f)) = pinchState r"
proof -
  from assms(2) obtain name sc d o' where i: "pinchInput f = Some (name, sc, d, o')"
    by (cases "pinchInput f") auto
  from pinchInput_name [OF i] assms(3) have "\<not> gestureBlocksPinch name"
    by (auto simp: blockingLabel_def gestureBlocksPinch_def split: option.splits)
  with assms(1) have "pinchState (pinchStage r name sc d o') = pinchState r"
    by (simp add: pinchStage_def Let_def)
  with pinch_step_input [OF i, of r] show ?thesis
    by simp
qed

lemma steadyHand_intro:
  assumes "pinchInput f = Some (name, sc, d, o')" and "opennessOk o'" and "scoreOk name sc"
    and "\<not> gestureBlocksPinch name"
  shows "steadyHand f"
proof -
  from assms(1) obtain results where f: "f = Recognized results"
    by (cases f) (simp_all add: pinchInput_def)
  from assms(1) f obtain r0 i0 where g0: "gestureStage initialRefs (gestures results) = Inr (r0, name, sc, i0)"
    by (auto simp: pinchInput_def split: sum.splits option.splits)
  from assms(1) f g0 obtain l tip where l: "handOf results = Some l"
    and m: "handMetrics l = Inr (tip, d, o')"
    by (auto simp: pinchInput_def split: sum.splits option.splits)
  have len: "21 \<le> length l"
    using m handMetrics_short [of l] by (cases "length l < 21") auto
  from g0 have gs: "case gestures results of [] \<Rightarrow> True | g # _ \<Rightarrow> g \<noteq> []"
    by (auto simp: gestureStage_cases split: list.splits)
  have nt: "noThrow f"
    using gs len by (simp add: noThrow_def f l)
  from pinchInput_name [OF assms(1)] assms(3,4)
  have top: "case frameTop f of None \<Rightarrow> True
             | Some c \<Rightarrow> \<not> gestureBlocksPinch (categoryName c) \<and> scoreOk (categoryName c) (score c)"
    by (auto split: option.splits)
  show ?thesis
    using nt top assms(2) by (simp add: steadyHand_def frameHand_def f l m)
qed

lemma pinch_rise_two_frames_steady:
  assumes "f1 \<noteq> VideoNotReady"
    and "\<not> pinchState (fst (predictWebcam r0 f1))"
    and "pinchState (fst (predictWebcam (fst (predictWebcam r0 f1)) f2))"
  shows "steadyHand f1 \<and> steadyHand f2"
proof -
  define r1 where "r1 = fst (predictWebcam r0 f1)"
  have n1: "\<not> pinchState r1" and p2: "pinchState (fst (predictWebcam r1 f2))"
    using assms(2,3) by (simp_all add: r1_def)
  have "f2 \<noteq> VideoNotReady"
    using n1 p2 by (auto simp: predictWebcam_def)
  with p2 obtain n2 s2 d2 o2 where i2: "pinchInput f2 = Some (n2, s2, d2, o2)"
    using pinch_step_none [of f2 r1] by (cases "pinchInput f2") auto
  from p2 pinch_step_input [OF i2, of r1] have "pinchState (pinchStage r1 n2 s2 d2 o2)"
    by simp
  from pinchStage_rise [OF n1 this] have ok2: "opennessOk o2" "scoreOk n2 s2" "\<not> gestureBlocksPinch n2"
    and c1: "1 \<le> pinchChangeStableCount r1"
    by simp_all
  from c1 assms(1) obtain n1' s1 d1 o1 where i1: "pinchInput f1 = Some (n1', s1, d1, o1)"
    using pinch_step_none [of f1 r0] by (cases "pinchInput f1") (auto simp: r1_def)
  from c1 pinch_step_input [OF i1, of r0]
  have "1 \<le> pinchChangeStableCount (pinchStage r0 n1' s1 d1 o1)"
    by (simp add: r1_def)
  from pinchStage_pending [OF this] n1 pinch_step_input [OF i1, of r0]
  have "rawPinch False n1' s1 d1 o1"
    by (auto simp: r1_def)
  then have ok1: "opennessOk o1" "scoreOk n1' s1" "\<not> gestureBlocksPinch n1'"
    by (simp_all add: rawPinch_def)
  show ?thesis
    using steadyHand_intro [OF i1 ok1] steadyHand_intro [OF i2 ok2] by simp
qed

lemma steady_stage:
  assumes "steadyHand f"
  shows "\<exists>name sc d o'. pinchInput f = Some (name, sc, d, o') \<and> frameDistance f = Some d \<and>
           (\<forall>p. rawPinch p name sc d o' =
              (if p then d < pinchUpThreshold else d < pinchDownThreshold)) \<and>
           \<not> gestureBlocksPinch name"
proof -
  from steadyHand_input [OF assms] obtain name sc d o' where
    i: "pinchInput f = Some (name, sc, d, o')" and ok: "opennessOk o'" "scoreOk name sc"
      "\<not> gestureBlocksPinch name"
    by blast
  have "\<forall>p. rawPinch p name sc d o' = (if p then d < pinchUpThreshold else d < pinchDownThreshold)"
    using ok by (simp add: rawPinch_def)
  with i ok(3) pinchInput_distance [OF i] show ?thesis
    by blast
qed

lemma rise_sufficient:
  assumes "steadyHand f1" and "steadyHand f2"
    and "distanceBelow pinchDownThreshold f1" and "distanceBelow pinchDownThreshold f2"
    and "\<not> pinchState r" and "pinchChangeStableCount r = 0"
  shows "\<not> pinchState (fst (predictWebcam r f1)) \<and>
         pinchState (fst (predictWebcam (fst (predictWebcam r f1)) f2))"
proof -
  from steady_stage [OF assms(1)] assms(3) obtain n1 s1 d1 o1 where
    i1: "pinchInput f1 = Some (n1, s1, d1, o1)" and raw1: "rawPinch False n1 s1 d1 o1"
    and nb1: "\<not> gestureBlocksPinch n1"
    by (auto simp: distanceBelow_def)
  from steady_stage [OF assms(2)] assms(4) obtain n2 s2 d2 o2 where
    i2: "pinchInput f2 = Some (n2, s2, d2, o2)" and raw2: "rawPinch False n2 s2 d2 o2"
    and nb2: "\<not> gestureBlocksPinch n2"
    by (auto simp: distanceBelow_def)
  define r1 where "r1 = fst (predictWebcam r f1)"
  have s1: "\<not> pinchState (pinchStage r n1 s1 d1 o1)"
    "pinchChangeStableCount (pinchStage r n1 s1 d1 o1) = 1"
    using assms(5,6) raw1 nb1 by (simp_all add: pinchStage_def Let_def)
  with pinch_step_input [OF i1, of r] have a1: "\<not> pinchState r1" "pinchChangeStableCount r1 = 1"
    by (simp_all add: r1_def)
  then have "pinchState (pinchStage r1 n2 s2 d2 o2)"
    using raw2 nb2 by (simp add: pinchStage_def Let_def)
  with pinch_step_input [OF i2, of r1] a1 show ?thesis
    by (simp add: r1_def)
qed

lemma fall_sufficient:
  assumes "steadyHand f1" and "steadyHand f2"
    and "distanceAtLeast pinchUpThreshold f1" and "distanceAtLeast pinchUpThreshold f2"
    and "pinchState r" and "pinchChangeStableCount r = 0"
  shows "pinchState (fst (predictWebcam r f1)) \<and>
         \<not> pinchState (fst (predictWebcam (fst (predictWebcam r f1)) f2))"
proof -
  from steady_stage [OF assms(1)] assms(3) obtain n1 s1 d1 o1 where
    i1: "pinchInput f1 = Some (n1, s1, d1, o1)" and raw1: "\<not> rawPinch True n1 s1 d1 o1"
    and nb1: "\<not> gestureBlocksPinch n1"
    by (auto simp: distanceAtLeast_def)
  from steady_stage [OF assms(2)] assms(4) obtain n2 s2 d2 o2 where
    i2: "pinchInput f2 = Some (n2, s2, d2, o2)" and raw2: "\<not> rawPinch True n2 s2 d2 o2"
    and nb2: "\<not> gestureBlocksPinch n2"
    by (auto simp: distanceAtLeast_def)
  define r1 where "r1 = fst (predictWebcam r f1)"
  have s1: "pinchState (pinchStage r n1 s1 d1 o1)"
    "pinchChangeStableCount (pinchStage r n1 s1 d1 o1) = 1"
    using assms(5,6) raw1 nb1 by (simp_all add: pinchStage_def Let_def)
  with pinch_step_input [OF i1, of r] have a1: "pinchState r1" "pinchChangeStableCount r1 = 1"
    by (simp_all add: r1_def)
  then have "\<not> pinchState (pinchStage r1 n2 s2 d2 o2)"
    using raw2 nb2 by (simp add: pinchStage_def Let_def)
  with pinch_step_input [OF i2, of r1] a1 show ?thesis
    by (simp add: r1_def)
qed
lemma length_wideHand: "length (wideHand d) = 21"
  by (simp add: wideHand_def)

lemma wideHand_nth:
  "i < 21 \<Longrightarrow> wideHand d ! i =
     (if i = 4 then point (0.3 - d) else if i = 9 then point 0.1
      else if i \<in> set opennessTipIds then point 0.3 else point 0)"
  by (simp add: wideHand_def)

lemma handMetrics_wideHand: "handMetrics (wideHand d) = Inr (point 0.3, \<bar>d\<bar>, 3)"
  by (simp add: handMetrics_def elemAt_def length_wideHand wideHand_nth palmBaseOf_def
      opennessTipIds_def pinchDistance_point opennessOf_def palmSizeOf_def point_sel hypot_axis)

lemma pinchInput_wide [simp]:
  "pinchInput (labelledFrame name sc (wideHand d)) = Some (name, sc, \<bar>d\<bar>, 3)"
  "pinchInput (unlabelledFrame (wideHand d)) = Some ('''', 0, \<bar>d\<bar>, 3)"
  by (simp_all add: pinchInput_def labelledFrame_def unlabelledFrame_def gestureStage_cases
      handOf_def length_wideHand handMetrics_wideHand)

lemma pinch_wide_step:
  "pinchState (fst (predictWebcam r (unlabelledFrame (wideHand d)))) =
     pinchState (pinchStage r '''' 0 \<bar>d\<bar> 3)"
  "pinchChangeStableCount (fst (predictWebcam r (unlabelledFrame (wideHand d)))) =
     pinchChangeStableCount (pinchStage r '''' 0 \<bar>d\<bar> 3)"
  using pinch_step_input [OF pinchInput_wide(2), of r d] by simp_all

lemma frameHand_noHandFrame [simp]: "frameHand noHandFrame = None"
  by (simp add: frameHand_def noHandFrame_def handOf_def)

lemma pinch_noHandFrame [simp]: "\<not> pinchState (fst (predictWebcam r noHandFrame))"
proof -
  have "noHandFrame \<noteq> VideoNotReady"
    by (simp add: noHandFrame_def)
  from pinch_step_no_hand [OF this frameHand_noHandFrame, of r] show ?thesis
    by simp
qed

lemma pinch_ClassifierThrows [simp]: "fst (predictWebcam r ClassifierThrows) = initialRefs"
  by (simp add: predictWebcam_def catchBlock_def initialRefs_def)

text \<open>
  Claim C2, as stated: the pinch falls back to not-pinching only at a distance of at
  least \<open>0.098\<close>, and every change waits for two agreeing frames.  At a distance of
  \<open>0.05\<close>, a frame labelled \<^verbatim>\<open>Closed_Fist\<close> or \<^verbatim>\<open>Open_Palm\<close> clears a committed pinch
  at once; so does a frame without a hand or a classifier exception; and two frames
  whose label scores no more than \<open>0.5\<close>, or whose openness is outside the band, release
  it as well.
\<close>

theorem C2_forced_release_counterexample:
  "pinchState pinchedRefs \<and>
   frameDistance (labelledFrame ''Closed_Fist'' 0.9 (sampleHand 0.05)) = Some 0.05 \<and>
   \<not> pinchState (fst (predictWebcam pinchedRefs (labelledFrame ''Closed_Fist'' 0.9 (sampleHand 0.05)))) \<and>
   \<not> pinchState (fst (predictWebcam pinchedRefs (labelledFrame ''Open_Palm'' 0.9 (sampleHand 0.05)))) \<and>
   \<not> pinchState (fst (predictWebcam pinchedRefs noHandFrame)) \<and>
   \<not> pinchState (fst (predictWebcam pinchedRefs ClassifierThrows)) \<and>
   \<not> pinchState (refsAfter pinchedRefs
        [labelledFrame ''Victory'' 0.4 (sampleHand 0.05),
         labelledFrame ''Victory'' 0.4 (sampleHand 0.05)]) \<and>
   frameDistance (unlabelledFrame (wideHand 0.05)) = Some 0.05 \<and>
   \<not> pinchState (refsAfter pinchedRefs
        [unlabelledFrame (wideHand 0.05), unlabelledFrame (wideHand 0.05)])"
  by (simp add: pinch_eval pinch_wide_step
      pinchInput_distance [where name = "''''" and sc = 0 and o' = 3])

text \<open>
  Claim C2, amended.  With thresholds \<open>0.072\<close> and \<open>0.098\<close>, and calling a frame steady
  when it carries a full hand, no \<^verbatim>\<open>Closed_Fist\<close> or \<^verbatim>\<open>Open_Palm\<close> label, a sufficient
  score and an openness inside the band:
  \<^item> the committed pinch rises only at the second of two consecutive processed frames
    that are steady with a distance below \<open>0.072\<close>, and from a settled released state
    two such frames do raise it, at the second;
  \<^item> between steady frames it falls only at the second of two consecutive frames with a
    distance of at least \<open>0.098\<close>, and from a settled pinch two such frames do release it,
    at the second;
  \<^item> from a settled state no single hand frame without a blocking label changes it;
  \<^item> a frame labelled \<^verbatim>\<open>Closed_Fist\<close> or \<^verbatim>\<open>Open_Palm\<close>, a processed frame without a
    hand, and a frame that raises an exception each clear the pinch at once, whatever the
    distance;
  \<^item> two consecutive hand frames with a failing score or openness leave it released,
    whatever the distance;
  \<^item> while every measured distance is at least \<open>0.072\<close> a released pinch stays
    released, and over steady frames with distances in \<open>[0.072, 0.098)\<close> the committed
    value never changes.
\<close>

theorem C2_pinch_hysteresis:
  "pinchDownThreshold = 0.072 \<and> pinchUpThreshold = 0.098 \<and>
   (f1 \<noteq> VideoNotReady \<and> \<not> pinchState (fst (predictWebcam r0 f1)) \<and>
    pinchState (fst (predictWebcam (fst (predictWebcam r0 f1)) f2)) \<longrightarrow>
      steadyHand f1 \<and> steadyHand f2 \<and>
      distanceBelow pinchDownThreshold f1 \<and> distanceBelow pinchDownThreshold f2) \<and>
   (steadyHand a1 \<and> steadyHand a2 \<and>
    distanceBelow pinchDownThreshold a1 \<and> distanceBelow pinchDownThreshold a2 \<and>
    \<not> pinchState ra \<and> pinchChangeStableCount ra = 0 \<longrightarrow>
      \<not> pinchState (fst (predictWebcam ra a1)) \<and>
      pinchState (fst (predictWebcam (fst (predictWebcam ra a1)) a2))) \<and>
   (steadyHand g1 \<and> steadyHand g2 \<and> pinchState (fst (predictWebcam q0 g1)) \<and>
    \<not> pinchState (fst (predictWebcam (fst (predictWebcam q0 g1)) g2)) \<longrightarrow>
      distanceAtLeast pinchUpThreshold g1 \<and> distanceAtLeast pinchUpThreshold g2) \<and>
   (steadyHand b1 \<and> steadyHand b2 \<and>
    distanceAtLeast pinchUpThreshold b1 \<and> distanceAtLeast pinchUpThreshold b2 \<and>
    pinchState rb \<and> pinchChangeStableCount rb = 0 \<longrightarrow>
      pinchState (fst (predictWebcam rb b1)) \<and>
      \<not> pinchState (fst (predictWebcam (fst (predictWebcam rb b1)) b2))) \<and>
   (pinchChangeStableCount rc = 0 \<and> pinchInput c \<noteq> None \<and> \<not> blockingLabel c \<longrightarrow>
      pinchState (fst (predictWebcam rc c)) = pinchState rc) \<and>
   (blockingLabel d \<longrightarrow>
      \<not> pinchState (fst (predictWebcam rd d)) \<and>
      pinchChangeStableCount (fst (predictWebcam rd d)) = 0) \<and>
   (e \<noteq> VideoNotReady \<and> frameHand e = None \<longrightarrow>
      \<not> pinchState (fst (predictWebcam re e)) \<and>
      pinchChangeStableCount (fst (predictWebcam re e)) = 0) \<and>
   (\<not> noThrow x \<longrightarrow> fst (predictWebcam rx x) = initialRefs) \<and>
   (failingHand h1 \<and> failingHand h2 \<longrightarrow> \<not> pinchState (refsAfter rh [h1, h2])) \<and>
   (\<not> pinchState r \<and> (\<forall>f\<in>set fs. \<not> distanceBelow pinchDownThreshold f) \<longrightarrow>
      \<not> pinchState (refsAfter r fs)) \<and>
   ((\<forall>f\<in>set gs. steadyHand f \<and> distanceAtLeast pinchDownThreshold f \<and>
        distanceBelow pinchUpThreshold f) \<longrightarrow>
      pinchState (refsAfter q gs) = pinchState q)"
proof (intro conjI impI)
  show "pinchDownThreshold = 0.072" "pinchUpThreshold = 0.098"
    by (simp_all add: pinchDownThreshold_def pinchUpThreshold_def)
next
  assume h: "f1 \<noteq> VideoNotReady \<and> \<not> pinchState (fst (predictWebcam r0 f1)) \<and>
    pinchState (fst (predictWebcam (fst (predictWebcam r0 f1)) f2))"
  then show "steadyHand f1" "steadyHand f2"
    using pinch_rise_two_frames_steady [of f1 r0 f2] by simp_all
  from h show "distanceBelow pinchDownThreshold f1" "distanceBelow pinchDownThreshold f2"
    using pinch_rise_two_frames [of f1 r0 f2] by simp_all
next
  assume "steadyHand a1 \<and> steadyHand a2 \<and>
    distanceBelow pinchDownThreshold a1 \<and> distanceBelow pinchDownThreshold a2 \<and>
    \<not> pinchState ra \<and> pinchChangeStableCount ra = 0"
  then show "\<not> pinchState (fst (predictWebcam ra a1))"
    "pinchState (fst (predictWebcam (fst (predictWebcam ra a1)) a2))"
    using rise_sufficient [of a1 a2 ra] by simp_all
next
  assume "steadyHand g1 \<and> steadyHand g2 \<and> pinchState (fst (predictWebcam q0 g1)) \<and>
    \<not> pinchState (fst (predictWebcam (fst (predictWebcam q0 g1)) g2))"
  then show "distanceAtLeast pinchUpThreshold g1" "distanceAtLeast pinchUpThreshold g2"
    using pinch_fall_two_frames [of g1 g2 q0] by simp_all
next
  assume "steadyHand b1 \<and> steadyHand b2 \<and>
    distanceAtLeast pinchUpThreshold b1 \<and> distanceAtLeast pinchUpThreshold b2 \<and>
    pinchState rb \<and> pinchChangeStableCount rb = 0"
  then show "pinchState (fst (predictWebcam rb b1))"
    "\<not> pinchState (fst (predictWebcam (fst (predictWebcam rb b1)) b2))"
    using fall_sufficient [of b1 b2 rb] by simp_all
next
  assume "pinchChangeStableCount rc = 0 \<and> pinchInput c \<noteq> None \<and> \<not> blockingLabel c"
  then show "pinchState (fst (predictWebcam rc c)) = pinchState rc"
    using settled_frame_keeps [of rc c] by simp
next
  assume "blockingLabel d"
  then show "\<not> pinchState (fst (predictWebcam rd d))"
    "pinchChangeStableCount (fst (predictWebcam rd d)) = 0"
    using pinch_step_blocking [of d rd] by simp_all
next
  assume "e \<noteq> VideoNotReady \<and> frameHand e = None"
  then show "\<not> pinchState (fst (predictWebcam re e))"
    "pinchChangeStableCount (fst (predictWebcam re e)) = 0"
    using pinch_step_no_hand [of e re] by simp_all
next
  assume "\<not> noThrow x"
  then show "fst (predictWebcam rx x) = initialRefs"
    by (rule predictWebcam_throw)
next
  assume "failingHand h1 \<and> failingHand h2"
  then show "\<not> pinchState (refsAfter rh [h1, h2])"
    using failing_two_frames [of h1 h2 rh] by simp
next
  assume "\<not> pinchState r \<and> (\<forall>f\<in>set fs. \<not> distanceBelow pinchDownThreshold f)"
  then show "\<not> pinchState (refsAfter r fs)"
    using pinch_stays_released [of r fs] by simp
next
  assume "\<forall>f\<in>set gs. steadyHand f \<and> distanceAtLeast pinchDownThreshold f \<and>
        distanceBelow pinchUpThreshold f"
  then show "pinchState (refsAfter q gs) = pinchState q"
    by (rule pinch_holds_in_band)
qed

lemma failingHand_samples [simp]:
  "failingHand (labelledFrame ''Victory'' 0.4 (sampleHand d))"
  "failingHand (unlabelledFrame (wideHand d))"
  by (simp_all add: failingHand_def scoreOk_def opennessOk_def)

lemma noHandFrame_processed [simp]: "noHandFrame \<noteq> VideoNotReady"
  by (simp add: noHandFrame_def)

lemma blockingLabel_palmFrame [simp]: "blockingLabel palmFrame"
  by (simp add: blockingLabel_def palmFrame_def gestureBlocksPinch_def)

lemma blockingLabel_unlabelled [simp]: "\<not> blockingLabel (unlabelledFrame l)"
  by (simp add: blockingLabel_def)

theorem C2_pinch_hysteresis_witness:
  "steadyHand (unlabelledFrame (sampleHand 0.05)) \<and>
   distanceBelow pinchDownThreshold (unlabelledFrame (sampleHand 0.05)) \<and>
   \<not> pinchState (fst (predictWebcam initialRefs (unlabelledFrame (sampleHand 0.05)))) \<and>
   pinchState (fst (predictWebcam (fst (predictWebcam initialRefs (unlabelledFrame (sampleHand 0.05))))
      (unlabelledFrame (sampleHand 0.05)))) \<and>
   distanceAtLeast pinchUpThreshold (unlabelledFrame (sampleHand 0.12)) \<and>
   pinchState (fst (predictWebcam pinchedRefs (unlabelledFrame (sampleHand 0.12)))) \<and>
   \<not> pinchState (fst (predictWebcam (fst (predictWebcam pinchedRefs (unlabelledFrame (sampleHand 0.12))))
      (unlabelledFrame (sampleHand 0.12)))) \<and>
   pinchState (fst (predictWebcam pinchedRefs (unlabelledFrame (wideHand 0.05)))) \<and>
   \<not> pinchState (fst (predictWebcam pinchedRefs palmFrame)) \<and>
   \<not> pinchState (fst (predictWebcam pinchedRefs noHandFrame)) \<and>
   fst (predictWebcam pinchedRefs ClassifierThrows) = initialRefs \<and>
   \<not> pinchState (refsAfter pinchedRefs
        [labelledFrame ''Victory'' 0.4 (sampleHand 0.05), unlabelledFrame (wideHand 0.05)]) \<and>
   \<not> pinchState (refsAfter initialRefs
        [unlabelledFrame (sampleHand 0.08), labelledFrame ''Closed_Fist'' 0.9 (sampleHand 0.09)]) \<and>
   pinchState (refsAfter pinchedRefs
        [unlabelledFrame (sampleHand 0.08), unlabelledFrame (sampleHand 0.09)])"
  using C2_pinch_hysteresis [where
      ?f1.0 = "unlabelledFrame (sampleHand 0.05)" and ?r0.0 = initialRefs and
      ?f2.0 = "unlabelledFrame (sampleHand 0.05)" and
      ?a1.0 = "unlabelledFrame (sampleHand 0.05)" and ?a2.0 = "unlabelledFrame (sampleHand 0.05)" and
      ra = initialRefs and
      ?g1.0 = "unlabelledFrame (sampleHand 0.12)" and ?g2.0 = "unlabelledFrame (sampleHand 0.12)" and
      ?q0.0 = pinchedRefs and
      ?b1.0 = "unlabelledFrame (sampleHand 0.12)" and ?b2.0 = "unlabelledFrame (sampleHand 0.12)" and
      rb = pinchedRefs and
      c = "unlabelledFrame (wideHand 0.05)" and rc = pinchedRefs and
      d = palmFrame and rd = pinchedRefs and
      e = noHandFrame and re = pinchedRefs and
      x = ClassifierThrows and rx = pinchedRefs and
      ?h1.0 = "labelledFrame ''Victory'' 0.4 (sampleHand 0.05)" and
      ?h2.0 = "unlabelledFrame (wideHand 0.05)" and rh = pinchedRefs and
      r = initialRefs and
      fs = "[unlabelledFrame (sampleHand 0.08), labelledFrame ''Closed_Fist'' 0.9 (sampleHand 0.09)]" and
      gs = "[unlabelledFrame (sampleHand 0.08), unlabelledFrame (sampleHand 0.09)]" and
      q = pinchedRefs]
  by (simp add: pinch_eval pinch_wide_step distanceBelow_def distanceAtLeast_def noThrow_def)

lemma confidentLabel_sample [simp]:
  "confidentLabel name (labelledFrame name' sc (sampleHand d)) \<longleftrightarrow> name' = name \<and> 0.35 < sc"
  by (simp add: confidentLabel_def)

lemma hasLabel_labelled [simp]: "hasLabel name (labelledFrame name' sc l) \<longleftrightarrow> name' = name"
  by (simp add: hasLabel_def)

text \<open>
  Claim C3, as stated, with \<open>N\<close> the stable-count threshold of the source, which is
  2 (\<^verbatim>\<open>gestureStableCountRef.current >= 2\<close>): two consecutive confident frames of a new
  label do not toggle the scene, because the count restarts at 0 on the first frame of
  a new label; the third frame does.
\<close>

theorem C3_two_frames_counterexample:
  "sceneTrace (CHAOS, initialRefs) [fistFrame, fistFrame] = [CHAOS, CHAOS] \<and>
   sceneTrace (CHAOS, initialRefs) [fistFrame, fistFrame, fistFrame] = [CHAOS, CHAOS, FORMED]"
proof -
  have c: "confidentLabel ''Closed_Fist'' fistFrame"
    by (simp add: fistFrame_def)
  define r1 where "r1 = fst (predictWebcam initialRefs fistFrame)"
  define r2 where "r2 = fst (predictWebcam r1 fistFrame)"
  from confident_step [OF c, of CHAOS initialRefs]
  have a1: "appFrame (CHAOS, initialRefs) fistFrame = (CHAOS, r1)"
    and l1: "lastGesture r1 = ''Closed_Fist''" and n1: "gestureStableCount r1 = 0"
    by (simp_all add: r1_def initialRefs_def)
  from confident_step [OF c, of CHAOS r1] l1 n1
  have a2: "appFrame (CHAOS, r1) fistFrame = (CHAOS, r2)"
    and l2: "lastGesture r2 = ''Closed_Fist''" and n2: "gestureStableCount r2 = 1"
    by (simp_all add: r2_def)
  from confident_step [OF c, of CHAOS r2] l2 n2
  have a3: "fst (appFrame (CHAOS, r2) fistFrame) = FORMED"
    by simp
  show ?thesis
    by (simp add: a1 a2 a3)
qed

text \<open>
  Claim C3, amended.  A frame whose label differs from the label of the frame before
  it emits no intent, so one frame of a different label amid frames of a label whose
  intent the scene already follows never changes the scene state.  Three consecutive
  frames of a new label (\<^verbatim>\<open>Open_Palm\<close> or \<^verbatim>\<open>Closed_Fist\<close>) with a score above \<open>0.35\<close>
  leave the scene unchanged for two frames and set it at the third; in a longer run it
  stays there, so the scene state changes exactly once.
\<close>

theorem C3_debounce:
  "(hasLabel b fb \<and> lastGesture refs \<noteq> b \<and> (\<forall>f\<in>set fs. hasLabel a f) \<and>
    (a = ''Open_Palm'' \<longrightarrow> scene = CHAOS) \<and> (a = ''Closed_Fist'' \<longrightarrow> scene = FORMED) \<longrightarrow>
      sceneTrace (scene, refs) (fb # fs) = replicate (Suc (length fs)) scene \<and>
      toggles (scene # sceneTrace (scene, refs) (fb # fs)) = 0) \<and>
   ((\<forall>f\<in>set gs. confidentLabel name f) \<and> 3 \<le> length gs \<and> lastGesture refs' \<noteq> name \<and>
    (name = ''Open_Palm'' \<and> scene' = FORMED \<or> name = ''Closed_Fist'' \<and> scene' = CHAOS) \<longrightarrow>
      sceneTrace (scene', refs') gs =
        [scene', scene'] @ replicate (length gs - 2) (if name = ''Open_Palm'' then CHAOS else FORMED) \<and>
      toggles (scene' # sceneTrace (scene', refs') gs) = 1)"
proof (intro conjI impI)
  assume h: "hasLabel b fb \<and> lastGesture refs \<noteq> b \<and> (\<forall>f\<in>set fs. hasLabel a f) \<and>
    (a = ''Open_Palm'' \<longrightarrow> scene = CHAOS) \<and> (a = ''Closed_Fist'' \<longrightarrow> scene = FORMED)"
  then have t: "sceneTrace (scene, refs) (fb # fs) = replicate (Suc (length fs)) scene"
    by (intro flicker_run [where a = a and b = b]) simp_all
  show "sceneTrace (scene, refs) (fb # fs) = replicate (Suc (length fs)) scene"
    by (rule t)
  show "toggles (scene # sceneTrace (scene, refs) (fb # fs)) = 0"
    unfolding t using toggles_replicate [of "Suc (Suc (length fs))" scene] by simp
next
  assume h: "(\<forall>f\<in>set gs. confidentLabel name f) \<and> 3 \<le> length gs \<and> lastGesture refs' \<noteq> name \<and>
    (name = ''Open_Palm'' \<and> scene' = FORMED \<or> name = ''Closed_Fist'' \<and> scene' = CHAOS)"
  let ?t = "if name = ''Open_Palm'' then CHAOS else FORMED"
  from h have t: "sceneTrace (scene', refs') gs = [scene', scene'] @ replicate (length gs - 2) ?t"
    by (intro new_label_run) auto
  show "sceneTrace (scene', refs') gs = [scene', scene'] @ replicate (length gs - 2) ?t"
    by (rule t)
  from h have ne: "scene' \<noteq> ?t" and len: "length gs - 2 \<noteq> 0"
    by auto
  show "toggles (scene' # sceneTrace (scene', refs') gs) = 1"
    unfolding t using toggles_Cons_replicate [of scene' "length gs - 2" ?t] ne len by simp
qed

theorem C3_debounce_witness:
  "toggles (CHAOS # sceneTrace (CHAOS, palmRefs) [fistFrame, palmFrame, palmFrame, palmFrame]) = 0 \<and>
   sceneTrace (CHAOS, initialRefs) [fistFrame, fistFrame, fistFrame, fistFrame] =
     [CHAOS, CHAOS, FORMED, FORMED] \<and>
   toggles (CHAOS # sceneTrace (CHAOS, initialRefs) [fistFrame, fistFrame, fistFrame, fistFrame]) = 1"
  using C3_debounce [of "''Closed_Fist''" fistFrame palmRefs "[palmFrame, palmFrame, palmFrame]"
      "''Open_Palm''" CHAOS "[fistFrame, fistFrame, fistFrame, fistFrame]"
      "''Closed_Fist''" initialRefs CHAOS]
  by (simp add: initialRefs_def palmRefs_def fistFrame_def palmFrame_def numeral_2_eq_2)

text \<open>
  Claim C9, as stated: the divisor is floored at \<open>1e-6\<close>.  The constant replaces only a
  distance of exactly zero: with the palm base \<open>1e-7\<close> away from the wrist the divisor is
  \<open>1e-7\<close>, below the constant.
\<close>

theorem C9_not_a_floor_counterexample:
  "palmSizeOf (point 0) (point (1 / 10000000)) = 1 / 10000000 \<and>
   palmSizeOf (point 0) (point (1 / 10000000)) < 1 / 1000000"
  by (simp add: palmSizeOf_def point_sel hypot_axis)

lemma palmSizeOf_eq:
  "palmSizeOf wrist palmBase =
     (if wristDistance wrist palmBase = 0 then 1 / 1000000 else wristDistance wrist palmBase)"
  by (simp add: palmSizeOf_def wristDistance_def Let_def)

lemma wristDistance_point: "wristDistance (point a) (point b) = \<bar>a - b\<bar>"
  by (simp add: wristDistance_def point_sel hypot_axis)

lemma palmSizeOf_small:
  assumes "0 < e"
  shows "palmSizeOf (point 0) (point e) = e"
  using assms by (simp add: palmSizeOf_eq wristDistance_point)

text \<open>
  Claim C9, amended.  The palm-size divisor is the wrist-to-palm-base distance itself
  whenever that distance is not zero, however small (for every \<open>e > 0\<close> there is a hand
  whose divisor is \<open>e\<close>, so the divisor has no positive lower bound), and \<open>1e-6\<close> when
  the distance is exactly zero, as when the two landmarks coincide; so it is always
  strictly positive.  For a hand of at least 21 landmarks the measurements are computed
  without an exception and the openness is the mean fingertip distance genuinely divided
  by the divisor, a non-negative number.  A hand of fewer than 21 landmarks raises a
  \<^verbatim>\<open>TypeError\<close>, which the callback catches.
\<close>

theorem C9_openness_divisor:
  "palmSizeOf wrist palmBase =
     (if wristDistance wrist palmBase = 0 then 1 / 1000000 else wristDistance wrist palmBase) \<and>
   (0 < e \<longrightarrow> wristDistance (point 0) (point e) = e \<and> palmSizeOf (point 0) (point e) = e) \<and>
   0 < palmSizeOf wrist palmBase \<and>
   palmSizeOf wrist wrist = 1 / 1000000 \<and>
   (21 \<le> length l \<longrightarrow>
      handMetrics l =
        Inr (l ! 8, pinchDistance (l ! 8) (l ! 4),
             opennessOf (tipDistance l 8 + tipDistance l 12 + tipDistance l 16 + tipDistance l 20)
               (palmSizeOf (l ! 0) (l ! 9))) \<and>
      0 \<le> opennessOf (tipDistance l 8 + tipDistance l 12 + tipDistance l 16 + tipDistance l 20)
             (palmSizeOf (l ! 0) (l ! 9)) \<and>
      opennessOf (tipDistance l 8 + tipDistance l 12 + tipDistance l 16 + tipDistance l 20)
        (palmSizeOf (l ! 0) (l ! 9)) * palmSizeOf (l ! 0) (l ! 9) =
        (tipDistance l 8 + tipDistance l 12 + tipDistance l 16 + tipDistance l 20) / 4) \<and>
   (length l' < 21 \<longrightarrow> handMetrics l' = Inl TypeError)"
proof -
  have p: "0 < palmSizeOf a b" for a b
    by (rule palmSizeOf_pos)
  have t: "0 \<le> tipDistance l i" for i
    by (simp add: tipDistance_def hypot_nonneg)
  have n: "0 \<le> tipDistance l 8 + tipDistance l 12 + tipDistance l 16 + tipDistance l 20"
    by (intro add_nonneg_nonneg t)
  have o: "0 \<le> opennessOf (tipDistance l 8 + tipDistance l 12 + tipDistance l 16 + tipDistance l 20)
             (palmSizeOf (l ! 0) (l ! 9))"
    using n p [of "l ! 0" "l ! 9"] by (simp add: opennessOf_def opennessTipIds_def)
  have m: "opennessOf T (palmSizeOf (l ! 0) (l ! 9)) * palmSizeOf (l ! 0) (l ! 9) = T / 4" for T
    using p [of "l ! 0" "l ! 9"] by (simp add: opennessOf_def opennessTipIds_def)
  have s: "0 < e \<longrightarrow> wristDistance (point 0) (point e) = e \<and> palmSizeOf (point 0) (point e) = e"
    by (simp add: palmSizeOf_small wristDistance_point)
  have rest: "0 < palmSizeOf wrist palmBase \<and>
     palmSizeOf wrist wrist = 1 / 1000000 \<and>
     (21 \<le> length l \<longrightarrow>
      handMetrics l =
        Inr (l ! 8, pinchDistance (l ! 8) (l ! 4),
             opennessOf (tipDistance l 8 + tipDistance l 12 + tipDistance l 16 + tipDistance l 20)
               (palmSizeOf (l ! 0) (l ! 9))) \<and>
      0 \<le> opennessOf (tipDistance l 8 + tipDistance l 12 + tipDistance l 16 + tipDistance l 20)
             (palmSizeOf (l ! 0) (l ! 9)) \<and>
      opennessOf (tipDistance l 8 + tipDistance l 12 + tipDistance l 16 + tipDistance l 20)
        (palmSizeOf (l ! 0) (l ! 9)) * palmSizeOf (l ! 0) (l ! 9) =
        (tipDistance l 8 + tipDistance l 12 + tipDistance l 16 + tipDistance l 20) / 4) \<and>
     (length l' < 21 \<longrightarrow> handMetrics l' = Inl TypeError)"
    using p palmSizeOf_same handMetrics_full [of l] handMetrics_short [of l'] o m by simp
  from palmSizeOf_eq [of wrist palmBase] s rest show ?thesis
    by (intro conjI) (elim conjE, assumption)+
qed

theorem C9_openness_divisor_witness:
  "palmSizeOf (point 0) (point (1 / 100000000)) = 1 / 100000000 \<and>
   handMetrics (replicate 21 (point 0)) = Inr (point 0, 0, 0) \<and>
   palmSizeOf (replicate 21 (point 0) ! 0) (replicate 21 (point 0) ! 9) = 1 / 1000000 \<and>
   handMetrics (replicate 5 (point 0)) = Inl TypeError"
  using C9_openness_divisor [of "point 0" "point 0" "1 / 100000000" "replicate 21 (point 0)"
      "replicate 5 (point 0)"]
  by (simp add: tipDistance_def point_sel hypot_axis opennessOf_def pinchDistance_point
      wristDistance_point)

section \<open>Facts about the lightbox\<close>

lemma pickLoop_empty: "pickLoop [] i rv sel = sel"
  by (simp add: pickLoop.simps)

lemma pickLoop_Some:
  assumes "sel \<noteq> None"
  shows "pickLoop c i rv sel \<noteq> None"
  using assms
proof (induction c i rv sel rule: pickLoop.induct)
  case (1 candidates i randomValue selected)
  then show ?case
    by (subst pickLoop.simps) (auto simp: Let_def)
qed

lemma weightedPick_None: "weightedPick c r = None \<longleftrightarrow> c = []"
proof (cases c)
  case Nil
  then show ?thesis
    by (simp add: weightedPick_def pickLoop_empty elemAt_def)
next
  case (Cons a as)
  then have "elemAt c 0 \<noteq> None"
    by (simp add: elemAt_def)
  from pickLoop_Some [OF this] Cons show ?thesis
    by (simp add: weightedPick_def)
qed

lemma photoDistances_length [simp]: "length (photoDistances cam children n) = length children"
  by (simp add: photoDistances_def)

lemma nearestPhotos_Nil: "nearestPhotos ds = [] \<longleftrightarrow> ds = []"
  by (cases ds) (auto simp: nearestPhotos_def Let_def min_def dest: arg_cong [where f = length])

lemma candidatePhotos_Nil: "candidatePhotos recent nearest = [] \<longleftrightarrow> nearest = []"
  by (auto simp: candidatePhotos_def Let_def)

lemma selectPhoto_ok:
  "(\<exists>t. selectPhoto cam children n recent r = Inr t) \<longleftrightarrow> children \<noteq> []"
proof -
  have "candidatePhotos recent (nearestPhotos (photoDistances cam children n)) = [] \<longleftrightarrow> children = []"
    unfolding candidatePhotos_Nil nearestPhotos_Nil
    by (metis length_0_conv photoDistances_length)
  then show ?thesis
    using weightedPick_None [of "candidatePhotos recent (nearestPhotos (photoDistances cam children n))" r]
    by (auto simp: selectPhoto_def Let_def split: option.splits)
qed

lemma opensLightbox_iff:
  "opensLightbox st env \<longleftrightarrow>
     pinchIntent env \<and> \<not> isLightboxOpen st \<and> \<not> hasPinched st \<and>
     pinchCooldownUntil st \<le> env_now env \<and> groupMounted env"
proof (cases "env_photoGroup env")
  case None
  then show ?thesis
    by (auto simp: opensLightbox_def Experience_useFrame_def groupMounted_def Let_def)
next
  case (Some children)
  show ?thesis
  proof (cases "children = []")
    case True
    with selectPhoto_ok [of "env_camera env" children "env_photosLength env"
        "recentlyViewedPhotos st" "env_random env"]
    obtain e where "selectPhoto (env_camera env) children (env_photosLength env)
        (recentlyViewedPhotos st) (env_random env) = Inl e"
      by (cases "selectPhoto (env_camera env) children (env_photosLength env)
        (recentlyViewedPhotos st) (env_random env)") auto
    with True Some show ?thesis
      by (auto simp: opensLightbox_def Experience_useFrame_def groupMounted_def Let_def)
  next
    case False
    with selectPhoto_ok [of "env_camera env" children "env_photosLength env"
        "recentlyViewedPhotos st" "env_random env"]
    obtain t rec where "selectPhoto (env_camera env) children (env_photosLength env)
        (recentlyViewedPhotos st) (env_random env) = Inr (t, rec)"
      by auto
    with False Some show ?thesis
      by (auto simp: opensLightbox_def Experience_useFrame_def groupMounted_def Let_def)
  qed
qed

lemma sceneStateEffect_cooldown: "pinchCooldownUntil (sceneStateEffect t s st) = t + 650"
  by (simp add: sceneStateEffect_def Let_def)

lemma Experience_mount_eq:
  "Experience_mount t s = (initialExperience s) \<lparr> pinchCooldownUntil := t + 650 \<rparr>"
  by (simp add: Experience_mount_def sceneStateEffect_def initialExperience_def Let_def)

lemma cooling_step:
  assumes "\<not> isLightboxOpen st" and "env_now env < pinchCooldownUntil st"
  shows "\<exists>st'. Experience_useFrame st env = Inr st' \<and> \<not> isLightboxOpen st' \<and>
           lightboxPhotoIndex st' = lightboxPhotoIndex st \<and>
           pinchCooldownUntil st' = pinchCooldownUntil st"
  using assms by (simp add: Experience_useFrame_def Let_def)

lemma cooling_run:
  assumes "\<not> isLightboxOpen st" and "\<forall>env\<in>set envs. env_now env < pinchCooldownUntil st"
  shows "\<exists>st'. Experience_frames st envs = Inr st' \<and> \<not> isLightboxOpen st' \<and>
           lightboxPhotoIndex st' = lightboxPhotoIndex st"
  using assms
proof (induction envs arbitrary: st)
  case Nil
  then show ?case by simp
next
  case (Cons env envs)
  from Cons.prems cooling_step [of st env] obtain st1 where
    s: "Experience_useFrame st env = Inr st1" "\<not> isLightboxOpen st1"
      "lightboxPhotoIndex st1 = lightboxPhotoIndex st" "pinchCooldownUntil st1 = pinchCooldownUntil st"
    by auto
  from Cons.IH [of st1] s Cons.prems show ?case
    by simp
qed

lemma groupMounted_pinchEnv [simp]: "groupMounted (pinchEnv t (Some sampleGroup) r)"
  by (simp add: groupMounted_def pinchEnv_def sampleGroup_def)

lemma pinchIntent_pinchEnv [simp]: "pinchIntent (pinchEnv t grp r)"
  by (simp add: pinchIntent_def pinchEnv_def pinchingHand_def)

lemma env_now_pinchEnv [simp]: "env_now (pinchEnv t grp r) = t"
  by (simp add: pinchEnv_def)

text \<open>
  Claim C4, as stated: the lightbox opens if and only if the pinch intent is true, the
  lightbox is closed, the latch is clear and the cooldown has elapsed.  The open branch
  is also guarded by \<^verbatim>\<open>if (photoGroupRef.current)\<close>: while the photo group is not
  mounted (an empty photo list, or textures still loading) the four conditions hold and
  the lightbox stays closed.
\<close>

theorem C4_group_not_mounted_counterexample:
  "pinchIntent (pinchEnv 1000 None 0) \<and>
   \<not> isLightboxOpen (Experience_mount 0 CHAOS) \<and>
   \<not> hasPinched (Experience_mount 0 CHAOS) \<and>
   pinchCooldownUntil (Experience_mount 0 CHAOS) \<le> env_now (pinchEnv 1000 None 0) \<and>
   \<not> opensLightbox (Experience_mount 0 CHAOS) (pinchEnv 1000 None 0)"
  by (simp add: opensLightbox_iff Experience_mount_eq initialExperience_def groupMounted_def
      pinchEnv_def pinchIntent_def pinchingHand_def)

text \<open>
  Claim C4, amended: a frame takes the lightbox from closed to opening if and only if
  the pinch intent is true, the lightbox is not open, the has-pinched latch is not
  set, the cooldown deadline has passed, and the photo group is mounted (with at least
  one ornament).  The deadline is set to 650 ms after each run of the scene-state
  effect.
\<close>

theorem C4_open_iff:
  "(opensLightbox st env \<longleftrightarrow>
      pinchIntent env \<and> \<not> isLightboxOpen st \<and> \<not> hasPinched st \<and>
      pinchCooldownUntil st \<le> env_now env \<and> groupMounted env) \<and>
   pinchCooldownUntil (sceneStateEffect t sceneState st) = t + 650"
  by (simp add: opensLightbox_iff sceneStateEffect_cooldown)

theorem C4_open_iff_witness:
  "opensLightbox (Experience_mount 0 CHAOS) (pinchEnv 1000 (Some sampleGroup) 0) \<and>
   \<not> opensLightbox (Experience_mount 0 CHAOS) (pinchEnv 500 (Some sampleGroup) 0)"
  using C4_open_iff [of "Experience_mount 0 CHAOS" "pinchEnv 1000 (Some sampleGroup) 0"]
    C4_open_iff [of "Experience_mount 0 CHAOS" "pinchEnv 500 (Some sampleGroup) 0"]
  by (simp add: Experience_mount_eq initialExperience_def)

text \<open>
  Claim C10: the scene-state effect also runs when the component mounts, so the
  cooldown deadline starts at mount time plus 650 ms although no toggle has happened
  (the firework trigger stays clear): no frame before the deadline opens the lightbox,
  whatever the pinch intent, and the first frame at the deadline with a pinch does.
\<close>

theorem C10_cooldown_at_mount:
  "pinchCooldownUntil (Experience_mount t0 sceneState) = t0 + 650 \<and>
   \<not> fireworkTrigger (Experience_mount t0 sceneState) \<and>
   (env_now env < t0 + 650 \<longrightarrow> \<not> opensLightbox (Experience_mount t0 sceneState) env) \<and>
   ((\<forall>e\<in>set envs. env_now e < t0 + 650) \<longrightarrow>
      (case Experience_frames (Experience_mount t0 sceneState) envs of
         Inl err \<Rightarrow> False
       | Inr st \<Rightarrow> \<not> isLightboxOpen st \<and> lightboxPhotoIndex st = None)) \<and>
   (pinchIntent env' \<and> groupMounted env' \<and> t0 + 650 \<le> env_now env' \<longrightarrow>
      opensLightbox (Experience_mount t0 sceneState) env')"
proof -
  let ?m = "Experience_mount t0 sceneState"
  have m: "pinchCooldownUntil ?m = t0 + 650" "\<not> isLightboxOpen ?m" "\<not> hasPinched ?m"
    "lightboxPhotoIndex ?m = None" "\<not> fireworkTrigger ?m"
    by (simp_all add: Experience_mount_eq initialExperience_def)
  have r: "(\<forall>e\<in>set envs. env_now e < t0 + 650) \<longrightarrow>
      (case Experience_frames ?m envs of
         Inl err \<Rightarrow> False
       | Inr st \<Rightarrow> \<not> isLightboxOpen st \<and> lightboxPhotoIndex st = None)"
  proof
    assume "\<forall>e\<in>set envs. env_now e < t0 + 650"
    with cooling_run [of ?m envs] m obtain st' where
      "Experience_frames ?m envs = Inr st'" "\<not> isLightboxOpen st'" "lightboxPhotoIndex st' = None"
      by auto
    then show "case Experience_frames ?m envs of
         Inl err \<Rightarrow> False
       | Inr st \<Rightarrow> \<not> isLightboxOpen st \<and> lightboxPhotoIndex st = None"
      by simp
  qed
  show ?thesis
    using m r by (simp add: opensLightbox_iff)
qed

theorem C10_cooldown_at_mount_witness:
  "\<not> opensLightbox (Experience_mount 1000 CHAOS) (pinchEnv 1500 (Some sampleGroup) 0) \<and>
   (case Experience_frames (Experience_mount 1000 CHAOS)
           [pinchEnv 1016 (Some sampleGroup) 0, pinchEnv 1649 (Some sampleGroup) 0] of
      Inl err \<Rightarrow> False
    | Inr st \<Rightarrow> \<not> isLightboxOpen st \<and> lightboxPhotoIndex st = None) \<and>
   opensLightbox (Experience_mount 1000 CHAOS) (pinchEnv 1650 (Some sampleGroup) 0)"
  using C10_cooldown_at_mount [of 1000 CHAOS "pinchEnv 1500 (Some sampleGroup) 0"
      "[pinchEnv 1016 (Some sampleGroup) 0, pinchEnv 1649 (Some sampleGroup) 0]"
      "pinchEnv 1650 (Some sampleGroup) 0"]
  by simp
section \<open>Facts about the photo selection\<close>

lemma nearestPhotos_length: "length (nearestPhotos ds) = min 5 (length ds)"
  by (simp add: nearestPhotos_def Let_def)

lemma nearestPhotos_sorted: "sorted (map pd_distance (nearestPhotos ds))"
proof -
  have "sorted (take (min 5 (length ds)) (map pd_distance (sort_key pd_distance ds)))"
    by (intro sorted_wrt_take) simp
  then show ?thesis
    by (simp add: nearestPhotos_def Let_def take_map)
qed

lemma nearestPhotos_subset: "set (nearestPhotos ds) \<subseteq> set ds"
  using set_take_subset [of "min 5 (length ds)" "sort_key pd_distance ds"]
  by (simp add: nearestPhotos_def Let_def)

lemma nearestPhotos_nearest:
  assumes "p \<in> set (nearestPhotos ds)" and "q \<in> set ds" and "q \<notin> set (nearestPhotos ds)"
  shows "pd_distance p \<le> pd_distance q"
proof -
  define s where "s = sort_key pd_distance ds"
  define n where "n = min 5 (length s)"
  have near: "nearestPhotos ds = take n s"
    by (simp add: nearestPhotos_def Let_def s_def n_def)
  have "sorted (map pd_distance (take n s @ drop n s))"
    by (simp add: s_def)
  then have le: "\<forall>x\<in>set (take n s). \<forall>y\<in>set (drop n s). pd_distance x \<le> pd_distance y"
    by (simp only: map_append sorted_append) auto
  have "set ds = set (take n s) \<union> set (drop n s)"
    by (metis append_take_drop_id s_def set_append set_sort)
  with assms(2,3) near have "q \<in> set (drop n s)"
    by auto
  with le assms(1) near show ?thesis
    by auto
qed

lemma candidatePhotos_eq:
  "candidatePhotos recent nearest =
     (if \<forall>p\<in>set nearest. pd_textureIndex p \<in> set recent then nearest
      else filter (\<lambda>p. pd_textureIndex p \<notin> set recent) nearest)"
  by (auto simp: candidatePhotos_def Let_def filter_empty_conv)

lemma foldl_add_sum:
  "foldl (\<lambda>sum i. sum + f i) a [0..<n] = a + (\<Sum>i<n. f i)"
  by (induction n arbitrary: a) (simp_all add: add.assoc)

lemma totalWeight_cum: "totalWeight c = cumWeight (length c) (length c)"
  by (simp add: totalWeight_def cumWeight_def foldl_add_sum)

lemma cumWeight_Suc: "cumWeight n (Suc k) = cumWeight n k + (n - k)"
  by (simp add: cumWeight_def)

lemma cumWeight_0: "cumWeight n 0 = 0"
  by (simp add: cumWeight_def)

lemma cumWeight_mono: "k \<le> m \<Longrightarrow> cumWeight n k \<le> cumWeight n m"
  by (induction m) (auto simp: cumWeight_Suc le_Suc_eq)

lemma cumWeight_total: "2 * cumWeight n n = n * (n + 1)"
proof -
  have "2 * cumWeight n k + (n - k) * (n - k + 1) = n * (n + 1)" if "k \<le> n" for k
    using that
  proof (induction k)
    case 0
    then show ?case by (simp add: cumWeight_0)
  next
    case (Suc k)
    then obtain d where d: "n - k = Suc d"
      by (metis Suc_diff_Suc Suc_le_lessD)
    then have "n - Suc k = d"
      by simp
    with Suc d show ?case
      by (simp add: cumWeight_Suc algebra_simps)
  qed
  from this [of n] show ?thesis
    by simp
qed

lemma pickLoop_unfold_hit:
  assumes "i < length c" and "rv - real (length c - i) \<le> 0"
  shows "pickLoop c i rv sel = Some (c ! i)"
  using assms by (subst pickLoop.simps) (simp add: Let_def)

lemma pickLoop_unfold_miss:
  assumes "i < length c" and "\<not> rv - real (length c - i) \<le> 0"
  shows "pickLoop c i rv sel = pickLoop c (Suc i) (rv - real (length c - i)) sel"
  using assms by (subst pickLoop.simps) (simp add: Let_def)

lemma pickLoop_hit:
  assumes "k < length c" and "i \<le> k"
    and "k = i \<or> real (cumWeight (length c) k) < rv0"
    and "rv0 \<le> real (cumWeight (length c) (Suc k))"
  shows "pickLoop c i (rv0 - real (cumWeight (length c) i)) sel = Some (c ! k)"
  using assms(2,3)
proof (induction "k - i" arbitrary: i)
  case 0
  then have i: "i = k"
    by simp
  have "rv0 - real (cumWeight (length c) k) - real (length c - k) \<le> 0"
    using assms(4) by (simp add: cumWeight_Suc)
  from pickLoop_unfold_hit [OF assms(1) this] show ?case
    by (simp only: i)
next
  case (Suc d)
  then have ik: "i < k" and d: "d = k - Suc i"
    by simp_all
  with Suc.prems have lt: "real (cumWeight (length c) k) < rv0"
    by simp
  have il: "i < length c"
    using ik assms(1) by simp
  have "cumWeight (length c) (Suc i) \<le> cumWeight (length c) k"
    using ik by (intro cumWeight_mono) simp
  with lt have "real (cumWeight (length c) (Suc i)) < rv0"
    by linarith
  then have pos: "\<not> rv0 - real (cumWeight (length c) i) - real (length c - i) \<le> 0"
    unfolding cumWeight_Suc of_nat_add by linarith
  have step: "rv0 - real (cumWeight (length c) i) - real (length c - i) =
              rv0 - real (cumWeight (length c) (Suc i))"
    unfolding cumWeight_Suc of_nat_add by linarith
  have "pickLoop c (Suc i) (rv0 - real (cumWeight (length c) (Suc i))) sel = Some (c ! k)"
    using ik lt by (intro Suc.hyps(1) d) simp_all
  with pickLoop_unfold_miss [OF il pos, of sel] show ?case
    by (simp only: step)
qed

lemma weightedPick_rank:
  assumes "k < length c"
    and "k = 0 \<or> real (cumWeight (length c) k) < r * real (totalWeight c)"
    and "r * real (totalWeight c) \<le> real (cumWeight (length c) (Suc k))"
  shows "weightedPick c r = Some (c ! k)"
proof -
  have z: "0 \<le> k"
    by simp
  from pickLoop_hit [OF assms(1) z assms(2) assms(3), of "elemAt c 0"] show ?thesis
    unfolding weightedPick_def cumWeight_0 by simp
qed

lemma rank_exists:
  assumes "isDraw r" and "c \<noteq> []"
  shows "\<exists>k<length c. (k = 0 \<or> real (cumWeight (length c) k) < r * real (totalWeight c)) \<and>
           r * real (totalWeight c) \<le> real (cumWeight (length c) (Suc k))"
proof -
  define n where "n = length c"
  define x where "x = r * real (totalWeight c)"
  define P where "P = (\<lambda>k. x \<le> real (cumWeight n (Suc k)))"
  have n: "0 < n"
    using assms(2) by (simp add: n_def)
  have "r \<le> 1"
    using assms(1) by (simp add: isDraw_def)
  then have "r * real (totalWeight c) \<le> 1 * real (totalWeight c)"
    by (intro mult_right_mono) simp_all
  then have "x \<le> real (cumWeight n n)"
    by (simp add: x_def totalWeight_cum n_def)
  moreover have "Suc (n - 1) = n"
    using n by simp
  ultimately have last: "P (n - 1)"
    by (simp add: P_def)
  define k where "k = (LEAST k. P k)"
  have Pk: "P k"
    unfolding k_def using last by (rule LeastI)
  have "k \<le> n - 1"
    unfolding k_def using last by (rule Least_le)
  with n have kn: "k < n"
    by arith
  have low: "k = 0 \<or> real (cumWeight n k) < x"
  proof (cases k)
    case 0
    then show ?thesis by simp
  next
    case (Suc j)
    have "\<not> P j"
    proof
      assume "P j"
      then have "k \<le> j"
        unfolding k_def by (rule Least_le)
      with Suc show False
        by simp
    qed
    then have "real (cumWeight n k) < x"
      unfolding P_def Suc by arith
    then show ?thesis ..
  qed
  from kn low Pk have "k < n \<and> (k = 0 \<or> real (cumWeight n k) < x) \<and> x \<le> real (cumWeight n (Suc k))"
    unfolding P_def by (intro conjI)
  then show ?thesis
    unfolding n_def x_def by (rule exI)
qed

lemma rank_reachable:
  assumes "k < length c"
  shows "isDraw ((real (cumWeight (length c) (Suc k)) - 1 / 2) / real (totalWeight c)) \<and>
         weightedPick c ((real (cumWeight (length c) (Suc k)) - 1 / 2) / real (totalWeight c)) =
           Some (c ! k)"
proof -
  let ?n = "length c"
  let ?T = "real (totalWeight c)"
  let ?u = "(real (cumWeight ?n (Suc k)) - 1 / 2) / ?T"
  have w: "1 \<le> ?n - k"
    using assms by simp
  have c1: "1 \<le> cumWeight ?n (Suc k)"
    using w by (simp add: cumWeight_Suc)
  have "cumWeight ?n (Suc k) \<le> cumWeight ?n ?n"
    using assms by (intro cumWeight_mono) simp
  then have cT: "real (cumWeight ?n (Suc k)) \<le> ?T"
    by (simp add: totalWeight_cum)
  with c1 have T: "0 < ?T"
    by linarith
  have uT: "?u * ?T = real (cumWeight ?n (Suc k)) - 1 / 2"
    using T by simp
  have d: "isDraw ?u"
    using c1 cT T by (simp add: isDraw_def)
  have "real (cumWeight ?n k) < ?u * ?T"
    unfolding uT using w by (simp add: cumWeight_Suc)
  moreover have "?u * ?T \<le> real (cumWeight ?n (Suc k))"
    unfolding uT by simp
  ultimately have "weightedPick c ?u = Some (c ! k)"
    using assms by (intro weightedPick_rank) simp_all
  with d show ?thesis
    by simp
qed

lemma pushRecent_length:
  assumes "length recent \<le> MAX_RECENT_HISTORY"
  shows "length (pushRecent recent t) \<le> MAX_RECENT_HISTORY"
  using assms by (simp add: pushRecent_def Let_def)

lemma pushRecent_eq:
  assumes "length recent \<le> MAX_RECENT_HISTORY"
  shows "pushRecent recent t =
           (if length recent < MAX_RECENT_HISTORY then recent @ [t] else tl recent @ [t])"
  using assms by (cases recent) (auto simp: pushRecent_def Let_def MAX_RECENT_HISTORY_def)

lemma Experience_useFrame_history:
  assumes "length (recentlyViewedPhotos st) \<le> MAX_RECENT_HISTORY"
    and "Experience_useFrame st env = Inr st'"
  shows "length (recentlyViewedPhotos st') \<le> MAX_RECENT_HISTORY"
proof -
  have "length rec \<le> MAX_RECENT_HISTORY"
    if "selectPhoto cam children n (recentlyViewedPhotos st) r = Inr (t, rec)" for cam children n r t rec
    using that pushRecent_length [OF assms(1)]
    by (auto simp: selectPhoto_def Let_def split: option.splits)
  with assms show ?thesis
    by (auto simp: Experience_useFrame_def Let_def split: if_splits option.splits sum.splits)
qed
lemma photoDistances_nth:
  assumes "i < length children"
  shows "photoDistances cam children n ! i =
           \<lparr> pd_index = i, pd_distance = distanceTo cam (children ! i), pd_textureIndex = i mod n \<rparr>"
  using assms by (simp add: photoDistances_def nth_enumerate_eq)

lemma candidatesOf_nonempty:
  assumes "children \<noteq> []"
  shows "candidatesOf cam children n recent \<noteq> []"
proof -
  have "length (photoDistances cam children n) \<noteq> 0"
    using assms by simp
  then have "photoDistances cam children n \<noteq> []"
    by (simp only: length_0_conv not_False_eq_True)
  then show ?thesis
    by (simp add: candidatesOf_def nearestOf_def candidatePhotos_Nil nearestPhotos_Nil)
qed

lemma selectPhoto_rank:
  assumes "k < length (candidatesOf cam children n recent)"
    and "k = 0 \<or> real (cumWeight (length (candidatesOf cam children n recent)) k)
           < r * real (totalWeight (candidatesOf cam children n recent))"
    and "r * real (totalWeight (candidatesOf cam children n recent))
           \<le> real (cumWeight (length (candidatesOf cam children n recent)) (Suc k))"
  shows "selectPhoto cam children n recent r =
           Inr (pd_textureIndex (candidatesOf cam children n recent ! k),
                pushRecent recent (pd_textureIndex (candidatesOf cam children n recent ! k)))"
  using weightedPick_rank [OF assms]
  by (simp add: selectPhoto_def candidatesOf_def nearestOf_def Let_def)

lemma totalWeight_closed: "real (totalWeight c) = real (length c * (length c + 1)) / 2"
proof -
  have "real (2 * cumWeight (length c) (length c)) = real (length c * (length c + 1))"
    by (simp only: cumWeight_total)
  then have "2 * real (totalWeight c) = real (length c * (length c + 1))"
    unfolding totalWeight_cum by simp
  then show ?thesis
    by simp
qed

lemma opens_result:
  assumes "opensLightbox st env" and "env_photoGroup env = Some children"
    and "selectPhoto (env_camera env) children (env_photosLength env)
           (recentlyViewedPhotos st) (env_random env) = Inr (t, rec)"
  shows "Experience_useFrame st env =
           Inr (st \<lparr> recentlyViewedPhotos := rec, isLightboxOpen := True,
                     lightboxPhotoIndex := Some t, lightboxOpacity := 0,
                     hasPinched := True, fadeOutTimer := None \<rparr>)"
  using assms
  by (auto simp: opensLightbox_iff Experience_useFrame_def Let_def)
lemma distanceTo_onAxis: "distanceTo zero3 (onAxis a) = \<bar>a\<bar>"
  by (simp add: distanceTo_def zero3_def onAxis_def)

lemma photoDistances_sample:
  "photoDistances zero3 sampleGroup 35 =
     [\<lparr> pd_index = 0, pd_distance = 7, pd_textureIndex = 0 \<rparr>,
      \<lparr> pd_index = 1, pd_distance = 3, pd_textureIndex = 1 \<rparr>,
      \<lparr> pd_index = 2, pd_distance = 5, pd_textureIndex = 2 \<rparr>,
      \<lparr> pd_index = 3, pd_distance = 1, pd_textureIndex = 3 \<rparr>,
      \<lparr> pd_index = 4, pd_distance = 6, pd_textureIndex = 4 \<rparr>,
      \<lparr> pd_index = 5, pd_distance = 2, pd_textureIndex = 5 \<rparr>,
      \<lparr> pd_index = 6, pd_distance = 4, pd_textureIndex = 6 \<rparr>]"
  by (simp add: photoDistances_def sampleGroup_def distanceTo_onAxis enumerate_simps)

lemma nearestOf_sample:
  "nearestOf zero3 sampleGroup 35 =
     [\<lparr> pd_index = 3, pd_distance = 1, pd_textureIndex = 3 \<rparr>,
      \<lparr> pd_index = 5, pd_distance = 2, pd_textureIndex = 5 \<rparr>,
      \<lparr> pd_index = 1, pd_distance = 3, pd_textureIndex = 1 \<rparr>,
      \<lparr> pd_index = 6, pd_distance = 4, pd_textureIndex = 6 \<rparr>,
      \<lparr> pd_index = 2, pd_distance = 5, pd_textureIndex = 2 \<rparr>]"
  by (simp add: nearestOf_def nearestPhotos_def photoDistances_sample sort_key_def Let_def)

lemma candidatesOf_sample:
  "candidatesOf zero3 sampleGroup 35 [3] =
     [\<lparr> pd_index = 5, pd_distance = 2, pd_textureIndex = 5 \<rparr>,
      \<lparr> pd_index = 1, pd_distance = 3, pd_textureIndex = 1 \<rparr>,
      \<lparr> pd_index = 6, pd_distance = 4, pd_textureIndex = 6 \<rparr>,
      \<lparr> pd_index = 2, pd_distance = 5, pd_textureIndex = 2 \<rparr>]"
  by (simp add: candidatesOf_def nearestOf_sample candidatePhotos_def Let_def)

lemma photoDistances_index: "map pd_index (photoDistances cam children n) = [0..<length children]"
  by (simp add: photoDistances_def comp_def case_prod_unfold flip: map_fst_enumerate [of 0 children])

lemma photoDistances_distinct: "distinct (photoDistances cam children n)"
proof -
  have "distinct (map pd_index (photoDistances cam children n))"
    unfolding photoDistances_index by simp
  then show ?thesis
    by (simp add: distinct_map)
qed

lemma candidatesOf_distinct: "distinct (candidatesOf cam children n recent)"
proof -
  have "distinct (nearestOf cam children n)"
    by (simp add: nearestOf_def nearestPhotos_def Let_def photoDistances_distinct)
  then show ?thesis
    by (simp add: candidatesOf_def candidatePhotos_def Let_def)
qed

lemma single_candidate_certain:
  assumes "length c = 1" and "isDraw r"
  shows "weightedPick c r = Some (c ! 0)"
proof -
  have T: "totalWeight c = 1"
    using assms(1) by (simp add: totalWeight_def)
  have "r * real (totalWeight c) \<le> real (cumWeight (length c) (Suc 0))"
    using assms by (simp add: T cumWeight_def isDraw_def)
  then show ?thesis
    using assms(1) by (intro weightedPick_rank) simp_all
qed

lemma no_candidate_certain:
  assumes "distinct c" and "2 \<le> length c" and "k < length c"
  shows "\<exists>u. isDraw u \<and> weightedPick c u \<noteq> Some (c ! k)"
proof -
  define j where "j = (if k = 0 then 1 else 0 :: nat)"
  have j: "j < length c" "j \<noteq> k"
    using assms(2) by (auto simp: j_def)
  from rank_reachable [OF j(1)] obtain u where u: "isDraw u" "weightedPick c u = Some (c ! j)"
    by blast
  have "c ! j \<noteq> c ! k"
    using assms(1,3) j by (simp add: nth_eq_iff_index_eq)
  with u show ?thesis
    by auto
qed

lemma useFrame_opens_with:
  assumes "pinchIntent env" and "\<not> isLightboxOpen st" and "\<not> hasPinched st"
    and "pinchCooldownUntil st \<le> env_now env" and "env_photoGroup env = Some children"
    and "selectPhoto (env_camera env) children (env_photosLength env)
           (recentlyViewedPhotos st) (env_random env) = Inr (t, rec)"
  shows "Experience_useFrame st env =
           Inr (st \<lparr> recentlyViewedPhotos := rec, isLightboxOpen := True,
                     lightboxPhotoIndex := Some t, lightboxOpacity := 0,
                     hasPinched := True, fadeOutTimer := None \<rparr>)"
  using assms by (simp add: Experience_useFrame_def Let_def)

lemma useFrame_selects_rank:
  assumes "pinchIntent env" and "\<not> isLightboxOpen st" and "\<not> hasPinched st"
    and "pinchCooldownUntil st \<le> env_now env" and "env_photoGroup env = Some children"
    and "k < length (candidatesOf (env_camera env) children (env_photosLength env)
                      (recentlyViewedPhotos st))"
    and "k = 0 \<or>
         real (cumWeight (length (candidatesOf (env_camera env) children (env_photosLength env)
                                    (recentlyViewedPhotos st))) k)
           < env_random env *
             real (totalWeight (candidatesOf (env_camera env) children (env_photosLength env)
                                  (recentlyViewedPhotos st)))"
    and "env_random env *
           real (totalWeight (candidatesOf (env_camera env) children (env_photosLength env)
                                (recentlyViewedPhotos st)))
           \<le> real (cumWeight (length (candidatesOf (env_camera env) children (env_photosLength env)
                                         (recentlyViewedPhotos st))) (Suc k))"
  shows "Experience_useFrame st env =
           Inr (st \<lparr> recentlyViewedPhotos :=
                       pushRecent (recentlyViewedPhotos st)
                         (pd_textureIndex
                            (candidatesOf (env_camera env) children (env_photosLength env)
                               (recentlyViewedPhotos st) ! k)),
                     isLightboxOpen := True,
                     lightboxPhotoIndex :=
                       Some (pd_textureIndex
                               (candidatesOf (env_camera env) children (env_photosLength env)
                                  (recentlyViewedPhotos st) ! k)),
                     lightboxOpacity := 0, hasPinched := True, fadeOutTimer := None \<rparr>)"
  using useFrame_opens_with [OF assms(1-5) selectPhoto_rank [OF assms(6-8)]] .

lemma candidatesOf_sample_single:
  "candidatesOf zero3 sampleGroup 35 seenFour =
     [\<lparr> pd_index = 2, pd_distance = 5, pd_textureIndex = 2 \<rparr>]"
  by (simp add: candidatesOf_def nearestOf_sample candidatePhotos_def Let_def seenFour_def)

lemma selectPhoto_sample_single:
  assumes "isDraw r"
  shows "selectPhoto zero3 sampleGroup 35 seenFour r = Inr (2, seenFour @ [2])"
proof -
  have "length (candidatesOf zero3 sampleGroup 35 seenFour) = 1"
    by (simp add: candidatesOf_sample_single)
  then have "weightedPick (candidatesOf zero3 sampleGroup 35 seenFour) r =
          Some (candidatesOf zero3 sampleGroup 35 seenFour ! 0)"
    using assms by (rule single_candidate_certain)
  then have w: "weightedPick [\<lparr> pd_index = 2, pd_distance = 5, pd_textureIndex = 2 \<rparr>] r =
          Some \<lparr> pd_index = 2, pd_distance = 5, pd_textureIndex = 2 \<rparr>"
    by (simp add: candidatesOf_sample_single)
  have p: "pushRecent seenFour 2 = seenFour @ [2]"
    by (simp add: pushRecent_def MAX_RECENT_HISTORY_def seenFour_def)
  show ?thesis
    by (simp add: selectPhoto_def Let_def candidatesOf_sample_single w p
        flip: candidatesOf_def nearestOf_def)
qed

text \<open>
  Claim C5, as stated: a closer candidate is more likely but never guaranteed.  When the
  history holds four of the five nearest photos a single candidate is left, and it is
  selected whatever the draw.
\<close>

theorem C5_single_candidate_counterexample:
  "seenFour = [3, 5, 1, 6] \<and>
   map pd_index (nearestOf zero3 sampleGroup 35) = [3, 5, 1, 6, 2] \<and>
   map pd_index (candidatesOf zero3 sampleGroup 35 seenFour) = [2] \<and>
   selectPhoto zero3 sampleGroup 35 seenFour 0 = Inr (2, [3, 5, 1, 6, 2]) \<and>
   selectPhoto zero3 sampleGroup 35 seenFour (1 / 2) = Inr (2, [3, 5, 1, 6, 2]) \<and>
   selectPhoto zero3 sampleGroup 35 seenFour (999 / 1000) = Inr (2, [3, 5, 1, 6, 2])"
proof -
  have e: "seenFour @ [2] = [3, 5, 1, 6, 2]"
    by (simp add: seenFour_def)
  have d: "isDraw 0" "isDraw (1 / 2)" "isDraw (999 / 1000)"
    by (simp_all add: isDraw_def)
  have s: "selectPhoto zero3 sampleGroup 35 seenFour 0 = Inr (2, [3, 5, 1, 6, 2])"
    "selectPhoto zero3 sampleGroup 35 seenFour (1 / 2) = Inr (2, [3, 5, 1, 6, 2])"
    "selectPhoto zero3 sampleGroup 35 seenFour (999 / 1000) = Inr (2, [3, 5, 1, 6, 2])"
    using d [THEN selectPhoto_sample_single] unfolding e by blast+
  have a: "seenFour = [3, 5, 1, 6]"
    by (simp add: seenFour_def)
  have n: "map pd_index (nearestOf zero3 sampleGroup 35) = [3, 5, 1, 6, 2]"
    by (simp add: nearestOf_sample)
  have c: "map pd_index (candidatesOf zero3 sampleGroup 35 seenFour) = [2]"
    by (simp add: candidatesOf_sample_single)
  show ?thesis
    using a n c s by blast
qed

text \<open>
  Claim C5, amended.  On a trigger, with a non-empty photo group, a draw \<open>r\<close> in \<open>[0, 1)\<close>
  and a history of at most 10 entries: the nearest set holds the \<open>min 5\<close> entities
  closest to the camera, in order of distance; the candidates are the nearest whose
  texture index is not in the history, or all the nearest when none is left; with \<open>N\<close>
  candidates the total weight is \<open>N (N + 1) / 2\<close> and rank \<open>k\<close> is selected exactly on an
  interval of draws of width \<open>(N - k)\<close> over the total (every draw falls in one such
  interval, and every rank has a draw that selects it); with two or more candidates no
  candidate is certain, and a single candidate is selected whatever the draw; a frame
  that meets the open conditions opens the lightbox on the selected texture index and
  appends it to the history, whose oldest entry is dropped when the length would exceed
  10; no frame makes the history longer than 10.
\<close>

theorem C5_photo_selection:
  assumes "children \<noteq> []" and "isDraw r" and "length recent \<le> MAX_RECENT_HISTORY"
  shows
    "(\<forall>i<length children.
        photoDistances cam children n ! i =
          \<lparr> pd_index = i, pd_distance = distanceTo cam (children ! i), pd_textureIndex = i mod n \<rparr>) \<and>
     length (nearestOf cam children n) = min 5 (length children) \<and>
     sorted (map pd_distance (nearestOf cam children n)) \<and>
     set (nearestOf cam children n) \<subseteq> set (photoDistances cam children n) \<and>
     (\<forall>p\<in>set (nearestOf cam children n). \<forall>q\<in>set (photoDistances cam children n).
        q \<notin> set (nearestOf cam children n) \<longrightarrow> pd_distance p \<le> pd_distance q) \<and>
     candidatesOf cam children n recent =
       (if \<forall>p\<in>set (nearestOf cam children n). pd_textureIndex p \<in> set recent
        then nearestOf cam children n
        else filter (\<lambda>p. pd_textureIndex p \<notin> set recent) (nearestOf cam children n)) \<and>
     candidatesOf cam children n recent \<noteq> [] \<and>
     real (totalWeight (candidatesOf cam children n recent)) =
       real (length (candidatesOf cam children n recent) *
             (length (candidatesOf cam children n recent) + 1)) / 2 \<and>
     (\<forall>k<length (candidatesOf cam children n recent).
        cumWeight (length (candidatesOf cam children n recent)) (Suc k) =
          cumWeight (length (candidatesOf cam children n recent)) k +
          (length (candidatesOf cam children n recent) - k)) \<and>
     (\<forall>k<length (candidatesOf cam children n recent).
        (k = 0 \<or> real (cumWeight (length (candidatesOf cam children n recent)) k)
                  < r * real (totalWeight (candidatesOf cam children n recent))) \<and>
        r * real (totalWeight (candidatesOf cam children n recent))
          \<le> real (cumWeight (length (candidatesOf cam children n recent)) (Suc k)) \<longrightarrow>
        selectPhoto cam children n recent r =
          Inr (pd_textureIndex (candidatesOf cam children n recent ! k),
               pushRecent recent (pd_textureIndex (candidatesOf cam children n recent ! k)))) \<and>
     (\<exists>k<length (candidatesOf cam children n recent).
        (k = 0 \<or> real (cumWeight (length (candidatesOf cam children n recent)) k)
                  < r * real (totalWeight (candidatesOf cam children n recent))) \<and>
        r * real (totalWeight (candidatesOf cam children n recent))
          \<le> real (cumWeight (length (candidatesOf cam children n recent)) (Suc k))) \<and>
     (\<forall>k<length (candidatesOf cam children n recent).
        isDraw ((real (cumWeight (length (candidatesOf cam children n recent)) (Suc k)) - 1 / 2) /
                real (totalWeight (candidatesOf cam children n recent))) \<and>
        weightedPick (candidatesOf cam children n recent)
          ((real (cumWeight (length (candidatesOf cam children n recent)) (Suc k)) - 1 / 2) /
           real (totalWeight (candidatesOf cam children n recent))) =
          Some (candidatesOf cam children n recent ! k)) \<and>
     (\<forall>t. pushRecent recent t =
            (if length recent < MAX_RECENT_HISTORY then recent @ [t] else tl recent @ [t]) \<and>
          length (pushRecent recent t) \<le> MAX_RECENT_HISTORY) \<and>
     MAX_RECENT_HISTORY = 10 \<and>
     (\<forall>st env st'. length (recentlyViewedPhotos st) \<le> MAX_RECENT_HISTORY \<and>
        Experience_useFrame st env = Inr st' \<longrightarrow>
        length (recentlyViewedPhotos st') \<le> MAX_RECENT_HISTORY) \<and>
     (length (candidatesOf cam children n recent) = 1 \<longrightarrow>
        selectPhoto cam children n recent r =
          Inr (pd_textureIndex (candidatesOf cam children n recent ! 0),
               pushRecent recent (pd_textureIndex (candidatesOf cam children n recent ! 0)))) \<and>
     (2 \<le> length (candidatesOf cam children n recent) \<longrightarrow>
        (\<forall>k<length (candidatesOf cam children n recent).
           \<exists>u. isDraw u \<and> weightedPick (candidatesOf cam children n recent) u \<noteq> Some (candidatesOf cam children n recent ! k))) \<and>
     (\<forall>st env k.
        pinchIntent env \<and> \<not> isLightboxOpen st \<and> \<not> hasPinched st \<and>
        pinchCooldownUntil st \<le> env_now env \<and> env_photoGroup env = Some children \<and>
        env_camera env = cam \<and> env_photosLength env = n \<and> env_random env = r \<and>
        recentlyViewedPhotos st = recent \<and>
        k < length (candidatesOf cam children n recent) \<and>
        (k = 0 \<or> real (cumWeight (length (candidatesOf cam children n recent)) k) < r * real (totalWeight (candidatesOf cam children n recent))) \<and>
        r * real (totalWeight (candidatesOf cam children n recent)) \<le> real (cumWeight (length (candidatesOf cam children n recent)) (Suc k)) \<longrightarrow>
        Experience_useFrame st env =
          Inr (st \<lparr> recentlyViewedPhotos := pushRecent recent (pd_textureIndex (candidatesOf cam children n recent ! k)),
                    isLightboxOpen := True,
                    lightboxPhotoIndex := Some (pd_textureIndex (candidatesOf cam children n recent ! k)),
                    lightboxOpacity := 0, hasPinched := True, fadeOutTimer := None \<rparr>))"
proof (intro conjI allI impI ballI)
  fix i
  assume "i < length children"
  then show "photoDistances cam children n ! i =
      \<lparr> pd_index = i, pd_distance = distanceTo cam (children ! i), pd_textureIndex = i mod n \<rparr>"
    by (rule photoDistances_nth)
next
  show "length (nearestOf cam children n) = min 5 (length children)"
    by (simp add: nearestOf_def nearestPhotos_length)
next
  show "sorted (map pd_distance (nearestOf cam children n))"
    unfolding nearestOf_def by (rule nearestPhotos_sorted)
next
  show "set (nearestOf cam children n) \<subseteq> set (photoDistances cam children n)"
    unfolding nearestOf_def by (rule nearestPhotos_subset)
next
  fix p q
  assume "p \<in> set (nearestOf cam children n)" "q \<in> set (photoDistances cam children n)"
    "q \<notin> set (nearestOf cam children n)"
  then show "pd_distance p \<le> pd_distance q"
    unfolding nearestOf_def by (rule nearestPhotos_nearest)
next
  show "candidatesOf cam children n recent =
       (if \<forall>p\<in>set (nearestOf cam children n). pd_textureIndex p \<in> set recent
        then nearestOf cam children n
        else filter (\<lambda>p. pd_textureIndex p \<notin> set recent) (nearestOf cam children n))"
    unfolding candidatesOf_def by (rule candidatePhotos_eq)
next
  show "candidatesOf cam children n recent \<noteq> []"
    by (rule candidatesOf_nonempty [OF assms(1)])
next
  show "real (totalWeight (candidatesOf cam children n recent)) =
       real (length (candidatesOf cam children n recent) *
             (length (candidatesOf cam children n recent) + 1)) / 2"
    by (rule totalWeight_closed)
next
  fix k
  show "cumWeight (length (candidatesOf cam children n recent)) (Suc k) =
          cumWeight (length (candidatesOf cam children n recent)) k +
          (length (candidatesOf cam children n recent) - k)"
    by (rule cumWeight_Suc)
next
  fix k
  assume "k < length (candidatesOf cam children n recent)"
    and "(k = 0 \<or> real (cumWeight (length (candidatesOf cam children n recent)) k)
                  < r * real (totalWeight (candidatesOf cam children n recent))) \<and>
        r * real (totalWeight (candidatesOf cam children n recent))
          \<le> real (cumWeight (length (candidatesOf cam children n recent)) (Suc k))"
  then show "selectPhoto cam children n recent r =
          Inr (pd_textureIndex (candidatesOf cam children n recent ! k),
               pushRecent recent (pd_textureIndex (candidatesOf cam children n recent ! k)))"
    by (intro selectPhoto_rank) simp_all
next
  show "\<exists>k<length (candidatesOf cam children n recent).
        (k = 0 \<or> real (cumWeight (length (candidatesOf cam children n recent)) k)
                  < r * real (totalWeight (candidatesOf cam children n recent))) \<and>
        r * real (totalWeight (candidatesOf cam children n recent))
          \<le> real (cumWeight (length (candidatesOf cam children n recent)) (Suc k))"
    by (rule rank_exists [OF assms(2) candidatesOf_nonempty [OF assms(1)]])
next
  fix k
  assume k: "k < length (candidatesOf cam children n recent)"
  from rank_reachable [OF k]
  show "isDraw ((real (cumWeight (length (candidatesOf cam children n recent)) (Suc k)) - 1 / 2) /
                real (totalWeight (candidatesOf cam children n recent)))"
    by (rule conjunct1)
  from rank_reachable [OF k]
  show "weightedPick (candidatesOf cam children n recent)
          ((real (cumWeight (length (candidatesOf cam children n recent)) (Suc k)) - 1 / 2) /
           real (totalWeight (candidatesOf cam children n recent))) =
          Some (candidatesOf cam children n recent ! k)"
    by (rule conjunct2)
next
  fix t
  show "pushRecent recent t =
            (if length recent < MAX_RECENT_HISTORY then recent @ [t] else tl recent @ [t])"
    by (rule pushRecent_eq [OF assms(3)])
  show "length (pushRecent recent t) \<le> MAX_RECENT_HISTORY"
    by (rule pushRecent_length [OF assms(3)])
next
  show "MAX_RECENT_HISTORY = 10"
    by (rule MAX_RECENT_HISTORY_def)
next
  fix st env st'
  assume "length (recentlyViewedPhotos st) \<le> MAX_RECENT_HISTORY \<and>
        Experience_useFrame st env = Inr st'"
  then show "length (recentlyViewedPhotos st') \<le> MAX_RECENT_HISTORY"
    using Experience_useFrame_history [of st env st'] by simp
next
  assume one: "length (candidatesOf cam children n recent) = 1"
  have "r * real (totalWeight (candidatesOf cam children n recent)) \<le> real (cumWeight (length (candidatesOf cam children n recent)) (Suc 0))"
    using assms(2) one by (simp add: totalWeight_def cumWeight_def isDraw_def)
  then show "selectPhoto cam children n recent r =
          Inr (pd_textureIndex (candidatesOf cam children n recent ! 0),
               pushRecent recent (pd_textureIndex (candidatesOf cam children n recent ! 0)))"
    using one by (intro selectPhoto_rank) simp_all
next
  fix k
  assume "2 \<le> length (candidatesOf cam children n recent)" and "k < length (candidatesOf cam children n recent)"
  then show "\<exists>u. isDraw u \<and> weightedPick (candidatesOf cam children n recent) u \<noteq> Some (candidatesOf cam children n recent ! k)"
    by (intro no_candidate_certain candidatesOf_distinct)
next
  fix st :: experience and env :: frame_env and k :: nat
  assume h: "pinchIntent env \<and> \<not> isLightboxOpen st \<and> \<not> hasPinched st \<and>
        pinchCooldownUntil st \<le> env_now env \<and> env_photoGroup env = Some children \<and>
        env_camera env = cam \<and> env_photosLength env = n \<and> env_random env = r \<and>
        recentlyViewedPhotos st = recent \<and>
        k < length (candidatesOf cam children n recent) \<and>
        (k = 0 \<or> real (cumWeight (length (candidatesOf cam children n recent)) k) < r * real (totalWeight (candidatesOf cam children n recent))) \<and>
        r * real (totalWeight (candidatesOf cam children n recent)) \<le> real (cumWeight (length (candidatesOf cam children n recent)) (Suc k))"
  then have e: "env_camera env = cam" "env_photosLength env = n" "env_random env = r"
    "recentlyViewedPhotos st = recent"
    by simp_all
  from h have "Experience_useFrame st env =
           Inr (st \<lparr> recentlyViewedPhotos :=
                       pushRecent (recentlyViewedPhotos st)
                         (pd_textureIndex
                            (candidatesOf (env_camera env) children (env_photosLength env)
                               (recentlyViewedPhotos st) ! k)),
                     isLightboxOpen := True,
                     lightboxPhotoIndex :=
                       Some (pd_textureIndex
                               (candidatesOf (env_camera env) children (env_photosLength env)
                                  (recentlyViewedPhotos st) ! k)),
                     lightboxOpacity := 0, hasPinched := True, fadeOutTimer := None \<rparr>)"
    by (intro useFrame_selects_rank) (simp_all add: e)
  then show "Experience_useFrame st env =
          Inr (st \<lparr> recentlyViewedPhotos := pushRecent recent (pd_textureIndex (candidatesOf cam children n recent ! k)),
                    isLightboxOpen := True,
                    lightboxPhotoIndex := Some (pd_textureIndex (candidatesOf cam children n recent ! k)),
                    lightboxOpacity := 0, hasPinched := True, fadeOutTimer := None \<rparr>)"
    by (simp only: e)
qed

theorem C5_photo_selection_witness:
  "map pd_index (nearestOf zero3 sampleGroup 35) = [3, 5, 1, 6, 2] \<and>
   map pd_index (candidatesOf zero3 sampleGroup 35 [3]) = [5, 1, 6, 2] \<and>
   totalWeight (candidatesOf zero3 sampleGroup 35 [3]) = 10 \<and>
   selectPhoto zero3 sampleGroup 35 [3] 0 = Inr (5, [3, 5]) \<and>
   Experience_useFrame viewedState (pinchEnv 1000 (Some sampleGroup) 0) =
     Inr (viewedState \<lparr> recentlyViewedPhotos := [3, 5], isLightboxOpen := True,
                        lightboxPhotoIndex := Some 5, lightboxOpacity := 0,
                        hasPinched := True, fadeOutTimer := None \<rparr>) \<and>
   length (pushRecent [0, 1, 2, 3, 4, 5, 6, 7, 8, 9] 10) \<le> 10"
proof -
  have h: "sampleGroup \<noteq> []" "isDraw 0" "length [3::nat] \<le> MAX_RECENT_HISTORY"
    by (simp_all add: sampleGroup_def isDraw_def MAX_RECENT_HISTORY_def)
  note t = C5_photo_selection [OF h, of zero3 35]
  have "\<forall>k<length (candidatesOf zero3 sampleGroup 35 [3]).
        (k = 0 \<or> real (cumWeight (length (candidatesOf zero3 sampleGroup 35 [3])) k) < 0 * real (totalWeight (candidatesOf zero3 sampleGroup 35 [3]))) \<and>
        0 * real (totalWeight (candidatesOf zero3 sampleGroup 35 [3])) \<le> real (cumWeight (length (candidatesOf zero3 sampleGroup 35 [3])) (Suc k)) \<longrightarrow>
        selectPhoto zero3 sampleGroup 35 [3] 0 =
          Inr (pd_textureIndex (candidatesOf zero3 sampleGroup 35 [3] ! k), pushRecent [3] (pd_textureIndex (candidatesOf zero3 sampleGroup 35 [3] ! k)))"
    using t by (elim conjE) assumption
  from this [rule_format, of 0]
  have sel: "selectPhoto zero3 sampleGroup 35 [3] 0 = Inr (5, [3, 5])"
    by (simp add: candidatesOf_sample pushRecent_def MAX_RECENT_HISTORY_def)
  have "\<forall>st env k.
        pinchIntent env \<and> \<not> isLightboxOpen st \<and> \<not> hasPinched st \<and>
        pinchCooldownUntil st \<le> env_now env \<and> env_photoGroup env = Some sampleGroup \<and>
        env_camera env = zero3 \<and> env_photosLength env = 35 \<and> env_random env = 0 \<and>
        recentlyViewedPhotos st = [3] \<and>
        k < length (candidatesOf zero3 sampleGroup 35 [3]) \<and>
        (k = 0 \<or> real (cumWeight (length (candidatesOf zero3 sampleGroup 35 [3])) k) < 0 * real (totalWeight (candidatesOf zero3 sampleGroup 35 [3]))) \<and>
        0 * real (totalWeight (candidatesOf zero3 sampleGroup 35 [3])) \<le> real (cumWeight (length (candidatesOf zero3 sampleGroup 35 [3])) (Suc k)) \<longrightarrow>
        Experience_useFrame st env =
          Inr (st \<lparr> recentlyViewedPhotos := pushRecent [3] (pd_textureIndex (candidatesOf zero3 sampleGroup 35 [3] ! k)),
                    isLightboxOpen := True,
                    lightboxPhotoIndex := Some (pd_textureIndex (candidatesOf zero3 sampleGroup 35 [3] ! k)),
                    lightboxOpacity := 0, hasPinched := True, fadeOutTimer := None \<rparr>)"
    using t by (elim conjE) assumption
  from this [rule_format, of "pinchEnv 1000 (Some sampleGroup) 0" viewedState 0]
  have run: "Experience_useFrame viewedState (pinchEnv 1000 (Some sampleGroup) 0) =
     Inr (viewedState \<lparr> recentlyViewedPhotos := [3, 5], isLightboxOpen := True,
                        lightboxPhotoIndex := Some 5, lightboxOpacity := 0,
                        hasPinched := True, fadeOutTimer := None \<rparr>)"
    by (simp add: candidatesOf_sample pushRecent_def MAX_RECENT_HISTORY_def viewedState_def
        Experience_mount_eq initialExperience_def pinchEnv_def pinchIntent_def pinchingHand_def)
  show ?thesis
    using sel run
    by (simp add: nearestOf_sample candidatesOf_sample totalWeight_def pushRecent_def
        MAX_RECENT_HISTORY_def)
qed

section \<open>Facts about the particle bursts\<close>

lemma particleUseFrame_ambient:
  assumes "pe_mounted env" and "isActive st" and "pe_isPhotoOpen env"
  shows "particleUseFrame st env =
           (if nextSpawnTime st \<le> pe_now env \<and> length (particleBatches st) < 8
            then st \<lparr> particleBatches :=
                        filter (batchLive (pe_now env))
                          (particleBatches st @ [createFirework True (pe_created env) (pe_draws env)]),
                      nextSpawnTime := pe_now env + 300 \<rparr>
            else st \<lparr> particleBatches := filter (batchLive (pe_now env)) (particleBatches st) \<rparr>)"
  using assms by (simp add: particleUseFrame_def Let_def)

lemma particleUseFrame_cap:
  assumes "length (particleBatches st) \<le> 8"
  shows "length (particleBatches (particleUseFrame st env)) \<le> 8"
proof -
  have "length (filter P xs) \<le> 8" if "length xs \<le> 8" for P and xs :: "batch list"
    using that length_filter_le [of P xs] by linarith
  then show ?thesis
    using assms by (simp add: particleUseFrame_def Let_def)
qed

lemma particleUseFrame_live:
  assumes "pe_mounted env" and "isActive st" and "b \<in> set (particleBatches (particleUseFrame st env))"
  shows "batchLive (pe_now env) b"
  using assms by (auto simp: particleUseFrame_def Let_def split: if_splits)

lemma particleUseFrame_keeps:
  assumes "b \<in> set (particleBatches st)" and "batchLive (pe_now env) b"
  shows "b \<in> set (particleBatches (particleUseFrame st env))"
  using assms by (auto simp: particleUseFrame_def Let_def)

lemma particleUseFrame_expired:
  assumes "pe_mounted env" and "isActive st"
    and "lifetime b \<le> real_of_int (pe_now env - startTime b) / 1000"
  shows "b \<notin> set (particleBatches (particleUseFrame st env))"
  using assms particleUseFrame_live [of env st b] by (auto simp: batchLive_def)

text \<open>
  Claim C6, as stated: a spawn at the cap evicts the oldest batch.  With eight live
  batches a due spawn is skipped instead: the frame leaves all eight batches, the oldest
  included, adds none, and does not move the next spawn time.
\<close>

theorem C6_no_eviction_counterexample:
  "length (particleBatches fullState) = 8 \<and>
   nextSpawnTime fullState \<le> pe_now (ambientEnv 1000) \<and>
   particleUseFrame fullState (ambientEnv 1000) = fullState \<and>
   sampleBatch 0 \<in> set (particleBatches (particleUseFrame fullState (ambientEnv 1000)))"
  by (simp add: fullState_def ambientEnv_def particleUseFrame_def Let_def batchLive_def
      sampleBatch_def)

text \<open>
  Claim C6, amended.  In ambient mode (effect mounted and active, lightbox open) a frame
  spawns a batch exactly when the next-spawn time has been reached and fewer than 8
  batches are live, and then sets the next-spawn time 300 ms ahead; otherwise it spawns
  nothing and leaves the next-spawn time alone, so at the cap a due spawn is skipped and
  nothing is evicted for it.  The number of batches never exceeds 8.  A batch is removed
  exactly when \<open>(now - startTime) / 1000\<close> has reached its lifetime.
\<close>

theorem C6_ambient_batches:
  "(pe_mounted env \<and> isActive st \<and> pe_isPhotoOpen env \<longrightarrow>
      particleUseFrame st env =
        (if nextSpawnTime st \<le> pe_now env \<and> length (particleBatches st) < 8
         then st \<lparr> particleBatches :=
                     filter (batchLive (pe_now env))
                       (particleBatches st @ [createFirework True (pe_created env) (pe_draws env)]),
                   nextSpawnTime := pe_now env + 300 \<rparr>
         else st \<lparr> particleBatches := filter (batchLive (pe_now env)) (particleBatches st) \<rparr>)) \<and>
   (length (particleBatches st) \<le> 8 \<longrightarrow> length (particleBatches (particleUseFrame st env)) \<le> 8) \<and>
   (pe_mounted env \<and> isActive st \<longrightarrow>
      (\<forall>b\<in>set (particleBatches st).
         b \<in> set (particleBatches (particleUseFrame st env)) \<longleftrightarrow>
         real_of_int (pe_now env - startTime b) / 1000 < lifetime b)) \<and>
   startTime (createFirework True created d) = created"
proof (intro conjI impI ballI)
  assume "pe_mounted env \<and> isActive st \<and> pe_isPhotoOpen env"
  then show "particleUseFrame st env =
        (if nextSpawnTime st \<le> pe_now env \<and> length (particleBatches st) < 8
         then st \<lparr> particleBatches :=
                     filter (batchLive (pe_now env))
                       (particleBatches st @ [createFirework True (pe_created env) (pe_draws env)]),
                   nextSpawnTime := pe_now env + 300 \<rparr>
         else st \<lparr> particleBatches := filter (batchLive (pe_now env)) (particleBatches st) \<rparr>)"
    by (intro particleUseFrame_ambient) simp_all
next
  assume "length (particleBatches st) \<le> 8"
  then show "length (particleBatches (particleUseFrame st env)) \<le> 8"
    by (rule particleUseFrame_cap)
next
  fix b
  assume m: "pe_mounted env \<and> isActive st" and b: "b \<in> set (particleBatches st)"
  show "b \<in> set (particleBatches (particleUseFrame st env)) \<longleftrightarrow>
         real_of_int (pe_now env - startTime b) / 1000 < lifetime b"
  proof
    assume "b \<in> set (particleBatches (particleUseFrame st env))"
    with m particleUseFrame_live [of env st b]
    show "real_of_int (pe_now env - startTime b) / 1000 < lifetime b"
      by (simp add: batchLive_def)
  next
    assume "real_of_int (pe_now env - startTime b) / 1000 < lifetime b"
    then have "batchLive (pe_now env) b"
      by (simp add: batchLive_def)
    from particleUseFrame_keeps [OF b this]
    show "b \<in> set (particleBatches (particleUseFrame st env))" .
  qed
next
  show "startTime (createFirework True created d) = created"
    by (simp add: createFirework_def Let_def)
qed

lemma lifetime_midDraws: "lifetime (createFirework True t midDraws) = 2.85"
  by (simp add: createFirework_def midDraws_def Let_def)

lemma startTime_createFirework: "startTime (createFirework p t d) = t"
  by (simp add: createFirework_def Let_def)

theorem C6_ambient_batches_witness:
  "particleBatches (particleUseFrame (photoOpenEffect 0 0 midDraws fullState) (ambientEnv 300)) =
     [createFirework True 0 midDraws, createFirework True 300 midDraws] \<and>
   nextSpawnTime (particleUseFrame (photoOpenEffect 0 0 midDraws fullState) (ambientEnv 300)) = 600 \<and>
   particleBatches (particleUseFrame (photoOpenEffect 0 0 midDraws fullState) (ambientEnv 2850)) =
     [createFirework True 2850 midDraws]"
  using C6_ambient_batches [of "ambientEnv 300" "photoOpenEffect 0 0 midDraws fullState"]
    C6_ambient_batches [of "ambientEnv 2850" "photoOpenEffect 0 0 midDraws fullState"]
  by (simp add: ambientEnv_def photoOpenEffect_def fullState_def batchLive_def
      lifetime_midDraws startTime_createFirework)

end
